theory Spec2Isabelle
  imports Complex_Main "HOL-Library.Multiset" "HOL-Library.Sublist" "HOL-Library.Monad_Syntax"
    "HOL-Library.Word"
begin

section \<open>Data of the program\<close>

text \<open>
  \<open>cv::Point2f\<close> and \<open>cv::Point3f\<close> are structs of floats. Coordinates and the
  \<open>double\<close> values computed from them are modelled as real numbers, so rounding is not
  part of the model; every comparison and every arithmetic operation of the source is kept
  as it is written. The \<open>int\<close> counters and indices of the source are modelled as
  unbounded integers.
\<close>

datatype point2f = Point2f (pt_x: real) (pt_y: real)

datatype point3f = Point3f (p3_x: real) (p3_y: real) (p3_z: real)

text \<open>
  A \<open>cv::Mat\<close> of doubles is the list of its rows. The default-constructed, empty
  matrix \<open>cv::Mat()\<close> has no rows.
\<close>

type_synonym mat = "real list list"

definition Mat_empty :: mat where
  "Mat_empty = []"

definition Mat_zeros :: "nat \<Rightarrow> nat \<Rightarrow> mat" where
  "Mat_zeros r c = replicate r (replicate c 0)"

text \<open>\<open>cv::Size\<close>: width and height.\<close>

type_synonym cv_size = "int \<times> int"

section \<open>calibrator.hpp, calibrator.cpp\<close>

text \<open>
  The private members of class \<open>Calibrator\<close>, without the trailing underscore of the
  source names. \<open>reproj_error_\<close> has the default member initialiser \<open>0.0\<close>.
\<close>

record calibrator =
  reproj_error :: real
  camera_matrix :: mat
  dist_coeffs :: mat
  image_points :: "point2f list list"
  object_points :: "point3f list list"

text \<open>
  The constructor: \<open>camera_matrix_ = cv::Mat()\<close>,
  \<open>dist_coeffs_ = cv::Mat::zeros(5, 1, CV_64F)\<close>; the two vectors start empty.
\<close>

definition Calibrator :: calibrator where
  "Calibrator =
     \<lparr>reproj_error = 0, camera_matrix = Mat_empty, dist_coeffs = Mat_zeros 5 1,
      image_points = [], object_points = []\<rparr>"

text \<open>\<open>Calibrator::add_sample\<close>: one \<open>push_back\<close> on each vector.\<close>

definition add_sample :: "calibrator \<Rightarrow> point2f list \<Rightarrow> point3f list \<Rightarrow> calibrator" where
  "add_sample c image_pts object_pts =
     c\<lparr>image_points := image_points c @ [image_pts],
       object_points := object_points c @ [object_pts]\<rparr>"

text \<open>
  \<open>cv::calibrateCamera\<close> is OpenCV's batch solver, not code of this repository. It is a
  parameter of the model: a function of the object point sets, the image point sets, the
  image size and the incoming values of the two in/out matrices, giving the returned error,
  the two matrices it writes, and the per-view rotation and translation vectors.
\<close>

record calib_output =
  out_err :: real
  out_camera_matrix :: mat
  out_dist_coeffs :: mat
  out_rvecs :: "mat list"
  out_tvecs :: "mat list"

type_synonym calibrate_camera =
  "point3f list list \<Rightarrow> point2f list list \<Rightarrow> cv_size \<Rightarrow> mat \<Rightarrow> mat \<Rightarrow> calib_output"

text \<open>
  \<open>Calibrator::calibrate\<close> returns its \<open>bool\<close> together with the object after the
  call. \<open>rvecs\<close> and \<open>tvecs\<close> are locals of the source and are dropped on return.
\<close>

definition calibrate :: "calibrate_camera \<Rightarrow> calibrator \<Rightarrow> cv_size \<Rightarrow> bool \<times> calibrator" where
  "calibrate calibrateCamera c image_size =
     (if image_points c = [] \<or> object_points c = [] then (False, c)
      else
        let out = calibrateCamera (object_points c) (image_points c) image_size
                    (camera_matrix c) (dist_coeffs c);
            err = out_err out
        in (True, c\<lparr>camera_matrix := out_camera_matrix out,
                     dist_coeffs := out_dist_coeffs out,
                     reproj_error := err\<rparr>))"

definition get_camera_matrix :: "calibrator \<Rightarrow> mat" where
  "get_camera_matrix c = camera_matrix c"

definition get_dist_coeffs :: "calibrator \<Rightarrow> mat" where
  "get_dist_coeffs c = dist_coeffs c"

definition get_reproj_error :: "calibrator \<Rightarrow> real" where
  "get_reproj_error c = reproj_error c"

text \<open>
  The public interface of the class as a datatype of calls. \<open>save\<close> and the three getters
  are \<open>const\<close> members: they leave the object as it is (\<open>save\<close> writes a file, which
  is outside the model).
\<close>

datatype calibrator_call =
    Add_sample "point2f list" "point3f list"
  | Calibrate cv_size
  | Save string
  | Get_camera_matrix
  | Get_dist_coeffs
  | Get_reproj_error

fun call :: "calibrate_camera \<Rightarrow> calibrator_call \<Rightarrow> calibrator \<Rightarrow> calibrator" where
  "call solver (Add_sample image_pts object_pts) c = add_sample c image_pts object_pts"
| "call solver (Calibrate image_size) c = snd (calibrate solver c image_size)"
| "call solver (Save filename) c = c"
| "call solver Get_camera_matrix c = c"
| "call solver Get_dist_coeffs c = c"
| "call solver Get_reproj_error c = c"

text \<open>A session: the calls made on one object, in order.\<close>

definition session :: "calibrate_camera \<Rightarrow> calibrator_call list \<Rightarrow> calibrator \<Rightarrow> calibrator" where
  "session solver calls c = fold (call solver) calls c"

text \<open>
  The number of stored samples, and the class invariant that both vectors hold one entry
  per sample.
\<close>

definition sample_count :: "calibrator \<Rightarrow> nat" where
  "sample_count c = length (image_points c)"

definition paired :: "calibrator \<Rightarrow> bool" where
  "paired c = (length (image_points c) = length (object_points c))"

text \<open>No call of \<open>calibrate\<close> in the session returns \<open>true\<close>.\<close>

fun no_successful_calibrate ::
  "calibrate_camera \<Rightarrow> calibrator_call list \<Rightarrow> calibrator \<Rightarrow> bool" where
  "no_successful_calibrate solver [] c = True"
| "no_successful_calibrate solver (Calibrate image_size # calls) c =
     (\<not> fst (calibrate solver c image_size) \<and>
      no_successful_calibrate solver calls (snd (calibrate solver c image_size)))"
| "no_successful_calibrate solver (other # calls) c =
     no_successful_calibrate solver calls (call solver other c)"

text \<open>A solver used to run the model on concrete inputs: it returns fixed values.\<close>

definition fixed_solver :: calibrate_camera where
  "fixed_solver object_pts image_pts image_size K d =
     \<lparr>out_err = 1 / 4,
      out_camera_matrix = [[1000, 0, 320], [0, 1000, 240], [0, 0, 1]],
      out_dist_coeffs = Mat_zeros 5 1,
      out_rvecs = map (\<lambda>_. [[0], [0], [0]]) object_pts,
      out_tvecs = map (\<lambda>_. [[0], [0], [10]]) object_pts\<rparr>"

section \<open>chessboard.hpp, chessboard.cpp\<close>

text \<open>
  The members of class \<open>Chessboard\<close>, without the trailing underscore, and its
  constructor, which stores its three arguments as they come.
\<close>

record chessboard =
  corners_x :: int
  corners_y :: int
  square_size :: real

definition Chessboard :: "int \<Rightarrow> int \<Rightarrow> real \<Rightarrow> chessboard" where
  "Chessboard cx cy s = \<lparr>corners_x = cx, corners_y = cy, square_size = s\<rparr>"

text \<open>
  \<open>v[i]\<close> on a \<open>std::vector\<close>. An index outside the vector is undefined behaviour
  in the source; in the model the read yields \<open>None\<close> and every function that reads a
  vector returns an option, \<open>None\<close> standing for a run that leaves the defined
  behaviour of the program.
\<close>

definition vec_at :: "'a list \<Rightarrow> int \<Rightarrow> 'a option" where
  "vec_at v i = (if 0 \<le> i \<and> i < int (length v) then Some (v ! nat i) else None)"

text \<open>\<open>v.push_back(x)\<close>, where reading \<open>x\<close> or building \<open>v\<close> may have failed.\<close>

definition push_back :: "'a list option \<Rightarrow> 'a option \<Rightarrow> 'a list option" where
  "push_back v p = do { xs \<leftarrow> v; x \<leftarrow> p; Some (xs @ [x]) }"

text \<open>
  \<open>Chessboard::reorder_corners\<close>. The two counted loops run over \<open>[0..corners_y - 1]\<close>
  and \<open>[0..corners_x - 1]\<close> and push one corner per step. The source assigns the result
  to its in/out argument; the model returns it.
\<close>

definition reorder_corners :: "chessboard \<Rightarrow> point2f list \<Rightarrow> int \<Rightarrow> point2f list option" where
  "reorder_corners b corners a1_index =
     (let step_x = (if a1_index = 0 \<or> a1_index = 2 then 1 else - 1);
          step_y = (if a1_index = 0 \<or> a1_index = 1 then 1 else - 1);
          start_y = (if step_y = 1 then 0 else corners_y b - 1);
          start_x = (if step_x = 1 then 0 else corners_x b - 1)
      in fold (\<lambda>y. fold (\<lambda>x ordered.
                 let col = start_x + x * step_x;
                     row = start_y + y * step_y
                 in push_back ordered (vec_at corners (row * corners_x b + col)))
               [0..corners_x b - 1])
           [0..corners_y b - 1] (Some []))"

text \<open>
  \<open>Chessboard::generate_object_points\<close>: the same two loops, each step placing the point
  \<open>(y * square_size, x * square_size, 0)\<close> at the end. The function reads no vector and
  has no assertion, exception or early return, so its model is a plain list.
\<close>

definition generate_object_points :: "chessboard \<Rightarrow> point3f list" where
  "generate_object_points b =
     fold (\<lambda>y. fold (\<lambda>x obj_pts.
             obj_pts @ [Point3f (of_int y * square_size b) (of_int x * square_size b) 0])
           [0..corners_x b - 1])
       [0..corners_y b - 1] []"

text \<open>
  For the proofs about \<open>reorder_corners\<close>: the position in the input that ends up at
  position \<open>i\<close> of the output. A direction is walked backwards or forwards.
\<close>

definition flip :: "bool \<Rightarrow> nat \<Rightarrow> nat \<Rightarrow> nat" where
  "flip backwards n i = (if backwards then n - 1 - i else i)"

definition source_index :: "chessboard \<Rightarrow> int \<Rightarrow> nat \<Rightarrow> nat" where
  "source_index b a1_index i =
     flip (\<not> (a1_index = 0 \<or> a1_index = 1)) (nat (corners_y b)) (i div nat (corners_x b))
       * nat (corners_x b)
     + flip (\<not> (a1_index = 0 \<or> a1_index = 2)) (nat (corners_x b)) (i mod nat (corners_x b))"

text \<open>A 2-row, 3-column grid of corners on which the model is run.\<close>

definition grid_2x3 :: "point2f list" where
  "grid_2x3 = [Point2f 10 10, Point2f 20 10, Point2f 30 10,
               Point2f 10 20, Point2f 20 20, Point2f 30 20]"

section \<open>Images and the outer squares\<close>

text \<open>
  Operations of \<open>cv::Point2f\<close> used by the source: \<open>p - q\<close>, \<open>p + q\<close>, \<open>p / d\<close> and
  \<open>cv::norm(p)\<close>.
\<close>

definition pt_sub :: "point2f \<Rightarrow> point2f \<Rightarrow> point2f" where
  "pt_sub p q = Point2f (pt_x p - pt_x q) (pt_y p - pt_y q)"

definition pt_add :: "point2f \<Rightarrow> point2f \<Rightarrow> point2f" where
  "pt_add p q = Point2f (pt_x p + pt_x q) (pt_y p + pt_y q)"

definition pt_div :: "point2f \<Rightarrow> real \<Rightarrow> point2f" where
  "pt_div p d = Point2f (pt_x p / d) (pt_y p / d)"

definition cv_norm :: "point2f \<Rightarrow> real" where
  "cv_norm p = sqrt (pt_x p * pt_x p + pt_y p * pt_y p)"

text \<open>
  An 8-bit single-channel \<open>cv::Mat\<close>: its size and \<open>at<uchar>(row, col)\<close>. Of the colour
  frame only the size is read, so the same record stands for it.
\<close>

record image =
  img_cols :: int
  img_rows :: int
  img_at :: "int \<Rightarrow> int \<Rightarrow> 8 word"

text \<open>
  OpenCV's \<open>cvRound\<close>, by which a \<open>Point2f\<close> becomes the integer corner of a
  \<open>cv::Rect\<close>: the nearest integer, a half going to the even neighbour.
\<close>

definition cvRound :: "real \<Rightarrow> int" where
  "cvRound v =
     (let f = \<lfloor>v\<rfloor>
      in if v - of_int f < 1 / 2 then f
         else if 1 / 2 < v - of_int f then f + 1
         else if even f then f else f + 1)"

text \<open>
  \<open>cv::mean(gray(cv::Rect(pt - cv::Point2f(2,2), cv::Size(5,5))))[0]\<close>: the mean of the
  5x5 block of pixels whose top-left corner is the rounded point. OpenCV throws when the
  rectangle does not lie inside the image; that is the result \<open>None\<close>.
\<close>

definition roi_mean :: "image \<Rightarrow> point2f \<Rightarrow> real option" where
  "roi_mean gray pt =
     (let x0 = cvRound (pt_x pt - 2);
          y0 = cvRound (pt_y pt - 2)
      in if 0 \<le> x0 \<and> x0 + 5 \<le> img_cols gray \<and> 0 \<le> y0 \<and> y0 + 5 \<le> img_rows gray
         then Some ((\<Sum>j\<leftarrow>[0..4]. \<Sum>i\<leftarrow>[0..4]. real (unat (img_at gray (y0 + j) (x0 + i)))) / 25)
         else None)"

text \<open>
  The test that skips an outer position:
  \<open>pt.x < 2 || pt.y < 2 || pt.x > gray.cols - 3 || pt.y > gray.rows - 3\<close>.
\<close>

definition outside_margin :: "image \<Rightarrow> point2f \<Rightarrow> bool" where
  "outside_margin gray pt \<longleftrightarrow>
     pt_x pt < 2 \<or> pt_y pt < 2 \<or>
     pt_x pt > of_int (img_cols gray - 3) \<or> pt_y pt > of_int (img_rows gray - 3)"

text \<open>
  The block that \<open>find_a1_index\<close>, \<open>find_a1_candidates\<close> and \<open>find_best_pose\<close> each
  start with: the four extreme corners, the steps \<open>dx\<close> and \<open>dy\<close>, and the four
  positions half a step outside. With a single row or column the source divides a float by
  zero; the model has no infinities and gives \<open>None\<close> there.
\<close>

definition outer_corners_of :: "int \<Rightarrow> int \<Rightarrow> point2f list \<Rightarrow> point2f list option" where
  "outer_corners_of rows cols corners = do {
     tl \<leftarrow> vec_at corners 0;
     tr \<leftarrow> vec_at corners (cols - 1);
     bl \<leftarrow> vec_at corners ((rows - 1) * cols);
     br \<leftarrow> vec_at corners (rows * cols - 1);
     if cols - 1 = 0 \<or> rows - 1 = 0 then None
     else do {
       let dx = pt_div (pt_sub tr tl) (of_int (cols - 1));
       let dy = pt_div (pt_sub bl tl) (of_int (rows - 1));
       Some [pt_sub (pt_sub tl (pt_div dx 2)) (pt_div dy 2),
             pt_sub (pt_add tr (pt_div dx 2)) (pt_div dy 2),
             pt_add (pt_sub bl (pt_div dx 2)) (pt_div dy 2),
             pt_add (pt_add br (pt_div dx 2)) (pt_div dy 2)]
     }
   }"

text \<open>
  The first loop of \<open>find_a1_candidates\<close>, one step: the state is \<open>vals\<close> and
  \<open>min_val\<close>.
\<close>

definition measure_outer ::
  "image \<Rightarrow> point2f list \<Rightarrow> nat \<Rightarrow> (real list \<times> real) option \<Rightarrow> (real list \<times> real) option" where
  "measure_outer gray outer_corners i st = do {
     (vals, min_val) \<leftarrow> st;
     let pt = outer_corners ! i;
     if outside_margin gray pt then Some (vals, min_val)
     else do {
       val \<leftarrow> roi_mean gray pt;
       Some (vals[i := val], if val < min_val then val else min_val)
     }
   }"

text \<open>
  \<open>Chessboard::find_a1_candidates\<close>. \<open>outer_corners\<close> and \<open>vals\<close> have four
  entries and both loops count from 0 to 3.
\<close>

definition find_a1_candidates :: "chessboard \<Rightarrow> image \<Rightarrow> point2f list \<Rightarrow> int list option" where
  "find_a1_candidates b gray corners = do {
     let rows = corners_y b;
     let cols = corners_x b;
     outer_corners \<leftarrow> outer_corners_of rows cols corners;
     (vals, min_val) \<leftarrow>
       fold (measure_outer gray outer_corners) [0..<4] (Some (replicate 4 1000000, 1000000));
     Some (fold (\<lambda>i candidates.
                   if vals ! i < min_val + 10 then candidates @ [int i] else candidates)
             [0..<4] [])
   }"

text \<open>
  For the proofs: the step of that loop on plain values, given which positions are inside
  the margin and the brightness measured at each.
\<close>

definition measured :: "(nat \<Rightarrow> bool) \<Rightarrow> (nat \<Rightarrow> real) \<Rightarrow> nat \<Rightarrow> real list \<times> real \<Rightarrow> real list \<times> real" where
  "measured inside br i st =
     (if inside i then ((fst st)[i := br i], if br i < snd st then br i else snd st) else st)"

section \<open>main.cpp: finding the best pose\<close>

definition CORNERS_X :: int where
  "CORNERS_X = 7"

definition CORNERS_Y :: int where
  "CORNERS_Y = 7"

definition SQUARE_SIZE :: real where
  "SQUARE_SIZE = 1"

definition detector :: chessboard where
  "detector = Chessboard CORNERS_X CORNERS_Y SQUARE_SIZE"

text \<open>
  The OpenCV routines called by \<open>find_best_pose\<close> are parameters of the model:
  \<open>cv::solvePnP\<close> (object points, image points, camera matrix, distortion coefficients;
  it returns its \<open>bool\<close> and writes \<open>rvec\<close> and \<open>tvec\<close>), \<open>cv::Rodrigues\<close> and
  \<open>cv::projectPoints\<close>.
\<close>

record opencv =
  solvePnP :: "point3f list \<Rightarrow> point2f list \<Rightarrow> mat \<Rightarrow> mat \<Rightarrow> bool \<times> mat \<times> mat"
  Rodrigues :: "mat \<Rightarrow> mat"
  projectPoints :: "point3f list \<Rightarrow> mat \<Rightarrow> mat \<Rightarrow> mat \<Rightarrow> mat \<Rightarrow> point2f list"

text \<open>\<open>R.at<double>(i, j)\<close>; an entry outside the matrix is \<open>None\<close>.\<close>

definition mat_at :: "mat \<Rightarrow> int \<Rightarrow> int \<Rightarrow> real option" where
  "mat_at m i j = do { r \<leftarrow> vec_at m i; vec_at r j }"

text \<open>
  The provisional camera matrix: the identity with focal lengths 1000 and the principal
  point at the centre of the frame.
\<close>

definition provisional_K :: "image \<Rightarrow> mat" where
  "provisional_K frame =
     [[1000, 0, of_int (img_cols frame) / 2],
      [0, 1000, of_int (img_rows frame) / 2],
      [0, 0, 1]]"

text \<open>
  One pass of the loop over \<open>a1_candidates\<close>, up to the point where the candidate is
  compared with the best one so far: the values of \<open>test_corners\<close>, \<open>rvec\<close>,
  \<open>tvec\<close>, \<open>pnp_ok\<close>, \<open>z_ok\<close> and \<open>reproj_err\<close> at that point. The entry of
  \<open>R\<close> is read only when \<open>pnp_ok\<close> holds. The mean divides by
  \<open>proj_pts.size()\<close>; were it zero the source would compute the float \<open>0.0 / 0\<close>, and
  the model gives \<open>None\<close>.
\<close>

record candidate =
  test_corners :: "point2f list"
  rvec :: mat
  tvec :: mat
  pnp_ok :: bool
  z_ok :: bool
  reproj_err :: real

definition sum_distances :: "point2f list \<Rightarrow> point2f list \<Rightarrow> real option" where
  "sum_distances proj_pts corners =
     fold (\<lambda>i err. do {
             e \<leftarrow> err;
             p \<leftarrow> vec_at proj_pts (int i);
             q \<leftarrow> vec_at corners (int i);
             Some (e + cv_norm (pt_sub p q))
           })
       [0..<length proj_pts] (Some 0)"

definition evaluate_candidate ::
  "opencv \<Rightarrow> mat \<Rightarrow> mat \<Rightarrow> point2f list \<Rightarrow> int \<Rightarrow> candidate option" where
  "evaluate_candidate cv K distortion corners a1_index = do {
     test \<leftarrow> reorder_corners detector corners a1_index;
     let obj_pts = generate_object_points detector;
     let (ok, rv, tv) = solvePnP cv obj_pts test K distortion;
     let R = Rodrigues cv rv;
     z \<leftarrow> (if ok then map_option (\<lambda>r22. r22 > 0) (mat_at R 2 2) else Some False);
     if z then do {
       let proj_pts = projectPoints cv obj_pts rv tv K distortion;
       err \<leftarrow> sum_distances proj_pts test;
       if proj_pts = [] then None
       else do {
         let mean_err = err / real (length proj_pts);
         Some \<lparr>test_corners = test, rvec = rv, tvec = tv, pnp_ok = ok,
               z_ok = (if mean_err > 15 then False else z), reproj_err = mean_err\<rparr>
       }
     }
     else Some \<lparr>test_corners = test, rvec = rv, tvec = tv, pnp_ok = ok,
                z_ok = z, reproj_err = 1000000000\<rparr>
   }"

text \<open>The outputs of \<open>find_best_pose\<close>, which the source passes by reference.\<close>

record pose =
  outer_vals :: "real list"
  best_corners :: "point2f list"
  best_rvec :: mat
  best_tvec :: mat
  best_a1 :: int
  best_reproj_err :: real

text \<open>The last statement of the loop body: keep the candidate if it beats the best.\<close>

definition keep_better :: "int \<Rightarrow> candidate \<Rightarrow> pose \<Rightarrow> pose" where
  "keep_better a1_index c best =
     (if z_ok c \<and> reproj_err c < best_reproj_err best
      then best\<lparr>best_reproj_err := reproj_err c,
                best_a1 := a1_index,
                best_corners := test_corners c,
                best_rvec := rvec c,
                best_tvec := tvec c\<rparr>
      else best)"

text \<open>The loop that fills \<open>outer_vals\<close>, one step.\<close>

definition outer_val_step ::
  "image \<Rightarrow> point2f list \<Rightarrow> nat \<Rightarrow> real list option \<Rightarrow> real list option" where
  "outer_val_step gray outer_corners i st = do {
     vals \<leftarrow> st;
     let pt = outer_corners ! i;
     if outside_margin gray pt then Some vals
     else do {
       val \<leftarrow> roi_mean gray pt;
       Some (vals[i := val])
     }
   }"

text \<open>
  The lambda \<open>find_best_pose\<close> of \<open>main\<close>. Printing under \<open>verbose_debug\<close> is left
  out. The unused local \<open>max_reproj_err = 8.0\<close> has no effect.
\<close>

definition find_best_pose :: "opencv \<Rightarrow> point2f list \<Rightarrow> image \<Rightarrow> image \<Rightarrow> pose option" where
  "find_best_pose cv corners frame gray = do {
     let a1_candidates = [0, 1, 2, 3];
     let rows = CORNERS_Y;
     let cols = CORNERS_X;
     outer_corners \<leftarrow> outer_corners_of rows cols corners;
     vals \<leftarrow> fold (outer_val_step gray outer_corners) [0..<4] (Some (replicate 4 1000000));
     let start = \<lparr>outer_vals = vals, best_corners = [], best_rvec = Mat_empty,
                  best_tvec = Mat_empty, best_a1 = - 1, best_reproj_err = 1000000000\<rparr>;
     let K = provisional_K frame;
     let distortion = Mat_zeros 5 1;
     fold (\<lambda>a1_index st. do {
             best \<leftarrow> st;
             c \<leftarrow> evaluate_candidate cv K distortion corners a1_index;
             Some (keep_better a1_index c best)
           })
       a1_candidates (Some start)
   }"

text \<open>
  The values that \<open>find_best_pose\<close> gives its outputs before the loop, and the
  candidate of one index under the provisional camera matrix and zero distortion.
\<close>

definition start_pose :: "real list \<Rightarrow> pose" where
  "start_pose vals =
     \<lparr>outer_vals = vals, best_corners = [], best_rvec = Mat_empty,
      best_tvec = Mat_empty, best_a1 = - 1, best_reproj_err = 1000000000\<rparr>"

definition candidate_of :: "opencv \<Rightarrow> image \<Rightarrow> point2f list \<Rightarrow> int \<Rightarrow> candidate option" where
  "candidate_of cv frame corners a1_index =
     evaluate_candidate cv (provisional_K frame) (Mat_zeros 5 1) corners a1_index"





section \<open>Inputs on which the model is run\<close>

text \<open>
  A 7x7 grid of corners with its first corner at \<open>(x0, y0)\<close> and steps \<open>sx\<close>,
  \<open>sy\<close>, in row-major order; an image of one grey level; and stand-ins for the three
  OpenCV routines: a solver that converges exactly when the first image point is
  \<open>(100, 100)\<close>, the identity rotation, and a projection that puts the object point
  \<open>(r, c, 0)\<close> at pixel \<open>(100 + s + 20 c, 100 + 20 r)\<close>, that is \<open>s\<close> pixels to
  the right of the corner of the grid \<open>test_grid\<close>.
\<close>

definition grid_7x7 :: "real \<Rightarrow> real \<Rightarrow> real \<Rightarrow> real \<Rightarrow> point2f list" where
  "grid_7x7 x0 y0 sx sy =
     map (\<lambda>i. Point2f (x0 + sx * real (i mod 7)) (y0 + sy * real (i div 7))) [0..<49]"

definition flat_image :: "int \<Rightarrow> int \<Rightarrow> 8 word \<Rightarrow> image" where
  "flat_image w h v = \<lparr>img_cols = w, img_rows = h, img_at = (\<lambda>row col. v)\<rparr>"

definition test_grid :: "point2f list" where
  "test_grid = grid_7x7 100 100 20 20"

definition test_frame :: image where
  "test_frame = flat_image 640 480 128"

definition identity3 :: mat where
  "identity3 = [[1, 0, 0], [0, 1, 0], [0, 0, 1]]"

definition shifted_camera :: "real \<Rightarrow> opencv" where
  "shifted_camera s =
     \<lparr>solvePnP = (\<lambda>obj img K d.
        (vec_at img 0 = Some (Point2f 100 100), [[0], [0], [0]], [[0], [0], [10]])),
      Rodrigues = (\<lambda>rv. identity3),
      projectPoints = (\<lambda>obj rv tv K d.
        map (\<lambda>p. Point2f (100 + s + 20 * p3_y p) (100 + 20 * p3_x p)) obj)\<rparr>"

text \<open>The pose found on \<open>test_grid\<close> when candidate 0 is kept with mean error \<open>e\<close>.\<close>

definition test_pose :: "real \<Rightarrow> pose" where
  "test_pose e =
     \<lparr>outer_vals = [128, 128, 128, 128], best_corners = test_grid,
      best_rvec = [[0], [0], [0]], best_tvec = [[0], [0], [10]],
      best_a1 = 0, best_reproj_err = e\<rparr>"

text \<open>
  A detection that fills the frame: the 7x7 corners run from \<open>(20, 15)\<close> to
  \<open>(620, 465)\<close> in a 640x480 image, so all four outer squares lie outside it.
\<close>

definition wide_grid :: "point2f list" where
  "wide_grid = grid_7x7 20 15 100 75"




section \<open>Properties of the calibrator\<close>

lemma paired_Calibrator: "paired Calibrator"
  by (simp add: paired_def Calibrator_def)

lemma paired_add_sample: "paired c \<Longrightarrow> paired (add_sample c image_pts object_pts)"
  by (simp add: paired_def add_sample_def)

lemma paired_calibrate: "paired c \<Longrightarrow> paired (snd (calibrate solver c image_size))"
  by (simp add: paired_def calibrate_def Let_def)

lemma paired_call: "paired c \<Longrightarrow> paired (call solver k c)"
  by (cases k) (simp_all add: paired_add_sample paired_calibrate)

lemma paired_session: "paired c \<Longrightarrow> paired (session solver calls c)"
  unfolding session_def
  by (induction calls arbitrary: c) (simp_all add: paired_call)

lemma call_image_points_prefix: "prefix (image_points c) (image_points (call solver k c))"
  by (cases k) (simp_all add: add_sample_def calibrate_def Let_def)

lemma call_object_points_prefix: "prefix (object_points c) (object_points (call solver k c))"
  by (cases k) (simp_all add: add_sample_def calibrate_def Let_def)

lemma session_image_points_prefix:
  "prefix (image_points c) (image_points (session solver calls c))"
  unfolding session_def
proof (induction calls arbitrary: c)
  case Nil
  show ?case by simp
next
  case (Cons k calls)
  have "prefix (image_points c) (image_points (call solver k c))"
    by (rule call_image_points_prefix)
  also have "prefix \<dots> (image_points (fold (call solver) calls (call solver k c)))"
    by (rule Cons.IH)
  finally show ?case by simp
qed

lemma session_object_points_prefix:
  "prefix (object_points c) (object_points (session solver calls c))"
  unfolding session_def
proof (induction calls arbitrary: c)
  case Nil
  show ?case by simp
next
  case (Cons k calls)
  have "prefix (object_points c) (object_points (call solver k c))"
    by (rule call_object_points_prefix)
  also have "prefix \<dots> (object_points (fold (call solver) calls (call solver k c)))"
    by (rule Cons.IH)
  finally show ?case by simp
qed

lemma calibrate_failed_same:
  "\<not> fst (calibrate solver c image_size) \<Longrightarrow> snd (calibrate solver c image_size) = c"
proof (cases "image_points c = [] \<or> object_points c = []")
  case True
  then show ?thesis by (simp add: calibrate_def)
next
  case False
  assume "\<not> fst (calibrate solver c image_size)"
  with False show ?thesis by (simp add: calibrate_def Let_def)
qed

lemma getters_unchanged_without_success:
  "no_successful_calibrate solver calls c \<Longrightarrow>
   reproj_error (fold (call solver) calls c) = reproj_error c \<and>
   camera_matrix (fold (call solver) calls c) = camera_matrix c \<and>
   dist_coeffs (fold (call solver) calls c) = dist_coeffs c"
proof (induction solver calls c rule: no_successful_calibrate.induct)
  case (1 solver c)
  show ?case by simp
next
  case (2 solver image_size calls c)
  from "2.prems" have failed: "\<not> fst (calibrate solver c image_size)"
    and rest: "no_successful_calibrate solver calls (snd (calibrate solver c image_size))"
    by simp_all
  have same: "snd (calibrate solver c image_size) = c"
    using failed by (rule calibrate_failed_same)
  from "2.IH" [OF rest] show ?case
    by (simp add: same)
qed (simp_all add: add_sample_def)

text \<open>
  C5. \<open>Calibrator::calibrate\<close> returns \<open>false\<close> exactly when no sample is stored. On
  that failure the object is returned as it was (camera matrix, distortion coefficients and
  reprojection error included). With samples stored it returns \<open>true\<close>, the stored
  reprojection error is the value returned by the external solver, the camera matrix and
  distortion coefficients are the ones the solver wrote, the samples are kept, and two
  solvers that differ only in the per-view rotation and translation vectors leave the same
  object: the per-view extrinsics are discarded. The object is one on which both sample
  vectors have the same length, as every object built by the constructor and
  \<open>add_sample\<close> has.
\<close>

theorem calibrate_fails_iff_no_samples:
  assumes "paired c"
  shows "(fst (calibrate solver c image_size) = False \<longleftrightarrow> sample_count c = 0) \<and>
         (sample_count c = 0 \<longrightarrow> calibrate solver c image_size = (False, c)) \<and>
         (sample_count c \<noteq> 0 \<longrightarrow>
            fst (calibrate solver c image_size) = True \<and>
            snd (calibrate solver c image_size) =
              (let out = solver (object_points c) (image_points c) image_size
                           (camera_matrix c) (dist_coeffs c)
               in c\<lparr>camera_matrix := out_camera_matrix out,
                     dist_coeffs := out_dist_coeffs out,
                     reproj_error := out_err out\<rparr>) \<and>
            get_reproj_error (snd (calibrate solver c image_size)) =
              out_err (solver (object_points c) (image_points c) image_size
                         (camera_matrix c) (dist_coeffs c)) \<and>
            calibrate (\<lambda>ob im sz K d. (solver ob im sz K d)\<lparr>out_rvecs := rv, out_tvecs := tv\<rparr>)
              c image_size = calibrate solver c image_size)"
  using assms
  by (auto simp add: calibrate_def paired_def sample_count_def get_reproj_error_def Let_def)

theorem calibrate_fails_iff_no_samples_witness:
  "paired (add_sample Calibrator [Point2f 1 2] [Point3f 0 0 0]) \<and>
   paired Calibrator \<and>
   calibrate fixed_solver Calibrator (640, 480) = (False, Calibrator) \<and>
   fst (calibrate fixed_solver (add_sample Calibrator [Point2f 1 2] [Point3f 0 0 0]) (640, 480)) \<and>
   get_reproj_error
     (snd (calibrate fixed_solver (add_sample Calibrator [Point2f 1 2] [Point3f 0 0 0]) (640, 480)))
     = 1 / 4"
  using calibrate_fails_iff_no_samples [of Calibrator fixed_solver "(640, 480)"]
    calibrate_fails_iff_no_samples
      [of "add_sample Calibrator [Point2f 1 2] [Point3f 0 0 0]" fixed_solver "(640, 480)"]
  by (simp add: paired_def sample_count_def add_sample_def Calibrator_def fixed_solver_def
      get_reproj_error_def calibrate_def)

text \<open>
  C7. \<open>Calibrator::add_sample\<close> appends exactly one sample: the count grows by one, the
  image points and object points stored before are the same and in the same order, and the
  new pair is last. No call of the class removes an entry: over any session the stored
  sequences only grow at the end, so the count never decreases.
\<close>

theorem add_sample_appends_one:
  "sample_count (add_sample c image_pts object_pts) = sample_count c + 1 \<and>
   length (object_points (add_sample c image_pts object_pts)) = length (object_points c) + 1 \<and>
   image_points (add_sample c image_pts object_pts) = image_points c @ [image_pts] \<and>
   object_points (add_sample c image_pts object_pts) = object_points c @ [object_pts] \<and>
   prefix (image_points c) (image_points (session solver calls c)) \<and>
   prefix (object_points c) (object_points (session solver calls c)) \<and>
   sample_count c \<le> sample_count (session solver calls c)"
proof -
  have "prefix (image_points c) (image_points (session solver calls c))"
    by (rule session_image_points_prefix)
  moreover have "prefix (object_points c) (object_points (session solver calls c))"
    by (rule session_object_points_prefix)
  moreover have "sample_count c \<le> sample_count (session solver calls c)"
    unfolding sample_count_def
    by (rule prefix_length_le) (rule session_image_points_prefix)
  ultimately show ?thesis
    by (simp add: add_sample_def sample_count_def)
qed

text \<open>
  C10. A freshly constructed \<open>Calibrator\<close> reports reprojection error \<open>0.0\<close>, an empty
  camera matrix and a 5x1 vector of zeros as distortion coefficients. \<open>add_sample\<close> changes
  none of the three, a \<open>calibrate\<close> that returns \<open>false\<close> changes none of them, and
  so they still have these values after any session on a fresh object in which no
  \<open>calibrate\<close> has returned \<open>true\<close>.
\<close>

theorem fresh_calibrator_getters:
  "get_reproj_error Calibrator = 0 \<and>
   get_camera_matrix Calibrator = [] \<and>
   get_dist_coeffs Calibrator = [[0], [0], [0], [0], [0]] \<and>
   get_reproj_error (add_sample c image_pts object_pts) = get_reproj_error c \<and>
   get_camera_matrix (add_sample c image_pts object_pts) = get_camera_matrix c \<and>
   get_dist_coeffs (add_sample c image_pts object_pts) = get_dist_coeffs c \<and>
   (\<not> fst (calibrate solver c image_size) \<longrightarrow>
      get_reproj_error (snd (calibrate solver c image_size)) = get_reproj_error c \<and>
      get_camera_matrix (snd (calibrate solver c image_size)) = get_camera_matrix c \<and>
      get_dist_coeffs (snd (calibrate solver c image_size)) = get_dist_coeffs c) \<and>
   (no_successful_calibrate solver calls Calibrator \<longrightarrow>
      get_reproj_error (session solver calls Calibrator) = 0 \<and>
      get_camera_matrix (session solver calls Calibrator) = [] \<and>
      get_dist_coeffs (session solver calls Calibrator) = [[0], [0], [0], [0], [0]])"
proof -
  have fresh: "reproj_error Calibrator = 0 \<and> camera_matrix Calibrator = [] \<and>
      dist_coeffs Calibrator = [[0], [0], [0], [0], [0]]"
    by (simp add: Calibrator_def Mat_empty_def Mat_zeros_def eval_nat_numeral)
  have failed: "\<not> fst (calibrate solver c image_size) \<Longrightarrow> snd (calibrate solver c image_size) = c"
    by (rule calibrate_failed_same)
  have run: "no_successful_calibrate solver calls Calibrator \<Longrightarrow>
      reproj_error (session solver calls Calibrator) = 0 \<and>
      camera_matrix (session solver calls Calibrator) = [] \<and>
      dist_coeffs (session solver calls Calibrator) = [[0], [0], [0], [0], [0]]"
    using getters_unchanged_without_success [of solver calls Calibrator] fresh
    by (simp add: session_def)
  show ?thesis
    using fresh failed run
    by (auto simp add: get_reproj_error_def get_camera_matrix_def get_dist_coeffs_def
        add_sample_def)
qed

theorem fresh_calibrator_getters_witness:
  "\<not> fst (calibrate fixed_solver Calibrator (640, 480)) \<and>
   no_successful_calibrate fixed_solver
     [Calibrate (640, 480), Add_sample [Point2f 1 2] [Point3f 0 0 0], Get_reproj_error]
     Calibrator \<and>
   get_reproj_error (snd (calibrate fixed_solver Calibrator (640, 480))) = 0 \<and>
   get_reproj_error
     (session fixed_solver
        [Calibrate (640, 480), Add_sample [Point2f 1 2] [Point3f 0 0 0], Get_reproj_error]
        Calibrator) = 0 \<and>
   get_dist_coeffs
     (session fixed_solver
        [Calibrate (640, 480), Add_sample [Point2f 1 2] [Point3f 0 0 0], Get_reproj_error]
        Calibrator) = [[0], [0], [0], [0], [0]]"
  using fresh_calibrator_getters
    [of Calibrator "[Point2f 1 2]" "[Point3f 0 0 0]" fixed_solver "(640, 480)"
      "[Calibrate (640, 480), Add_sample [Point2f 1 2] [Point3f 0 0 0], Get_reproj_error]"]
  by (simp add: calibrate_def Calibrator_def)

section \<open>Properties of the chessboard\<close>

subsection \<open>Loops that push one element per step\<close>

lemma fold_push: "fold (\<lambda>x acc. acc @ [f x]) xs acc = acc @ map f xs"
  by (induction xs arbitrary: acc) simp_all

lemma fold_fold_push:
  "fold (\<lambda>y. fold (\<lambda>x acc. acc @ [f y x]) xs) ys acc = acc @ concat (map (\<lambda>y. map (f y) xs) ys)"
  by (induction ys arbitrary: acc) (simp_all add: fold_push)

lemma fold_push_back:
  "\<forall>x\<in>set xs. g x = Some (f x) \<Longrightarrow>
   fold (\<lambda>x ordered. push_back ordered (g x)) xs (Some acc) = Some (acc @ map f xs)"
  by (induction xs arbitrary: acc) (simp_all add: push_back_def)

lemma fold_fold_push_back:
  "\<forall>y\<in>set ys. \<forall>x\<in>set xs. g y x = Some (f y x) \<Longrightarrow>
   fold (\<lambda>y. fold (\<lambda>x ordered. push_back ordered (g y x)) xs) ys (Some acc) =
   Some (acc @ concat (map (\<lambda>y. map (f y) xs) ys))"
proof (induction ys arbitrary: acc)
  case Nil
  show ?case by simp
next
  case (Cons a ys)
  from Cons.prems have row: "\<forall>x\<in>set xs. g a x = Some (f a x)"
    and rest: "\<forall>y\<in>set ys. \<forall>x\<in>set xs. g y x = Some (f y x)"
    by simp_all
  have "fold (\<lambda>x ordered. push_back ordered (g a x)) xs (Some acc) = Some (acc @ map (f a) xs)"
    using row by (rule fold_push_back)
  then show ?case
    using Cons.IH [OF rest, of "acc @ map (f a) xs"] by simp
qed

lemma upto_from_0: "[0..n - 1] = map int [0..<nat n]"
  by (rule nth_equalityI) (simp_all add: nth_upto)

lemma concat_grid:
  "concat (map (\<lambda>y. map (f y) [0..<W]) [0..<H]) = map (\<lambda>i. f (i div W) (i mod W)) [0..<H * W]"
proof (induction H)
  case 0
  show ?case by simp
next
  case (Suc H)
  have split: "[0..<Suc H * W] = [0..<H * W] @ [H * W..<H * W + W]"
    using upt_add_eq_append [of 0 "H * W" W] by (simp add: add.commute)
  have last_row: "map (\<lambda>i. f (i div W) (i mod W)) [H * W..<H * W + W] = map (f H) [0..<W]"
    by (rule nth_equalityI) simp_all
  show ?case
    unfolding split using Suc.IH last_row by simp
qed

lemma grid_index_less:
  fixes r c W H :: nat
  assumes "r < H" "c < W"
  shows "r * W + c < H * W"
proof -
  have "r * W + c < r * W + W" using assms by simp
  also have "\<dots> = Suc r * W" by simp
  also have "\<dots> \<le> H * W" using assms by (intro mult_le_mono1) simp
  finally show ?thesis .
qed

lemma flip_less: "i < n \<Longrightarrow> flip d n i < n"
  by (simp add: flip_def)

lemma flip_flip: "i < n \<Longrightarrow> flip d n (flip d n i) = i"
  by (simp add: flip_def)

lemma source_index_less:
  assumes "i < nat (corners_y b) * nat (corners_x b)"
  shows "source_index b k i < nat (corners_y b) * nat (corners_x b)"
proof -
  have W: "0 < nat (corners_x b)" using assms by (cases "nat (corners_x b)") simp_all
  have "i div nat (corners_x b) < nat (corners_y b)"
    using assms W by (simp add: less_mult_imp_div_less)
  moreover have "i mod nat (corners_x b) < nat (corners_x b)" using W by simp
  ultimately show ?thesis
    unfolding source_index_def by (intro grid_index_less flip_less)
qed

lemma source_index_involution:
  assumes "i < nat (corners_y b) * nat (corners_x b)"
  shows "source_index b k (source_index b k i) = i"
proof -
  define W where "W = nat (corners_x b)"
  define H where "H = nat (corners_y b)"
  have W: "0 < W" using assms unfolding W_def by (cases "nat (corners_x b)") simp_all
  have y: "i div W < H"
    using assms W unfolding W_def H_def by (simp add: less_mult_imp_div_less)
  have x: "i mod W < W" using W by simp
  define y' where "y' = flip (\<not> (k = 0 \<or> k = 1)) H (i div W)"
  define x' where "x' = flip (\<not> (k = 0 \<or> k = 2)) W (i mod W)"
  have x': "x' < W" unfolding x'_def using x by (rule flip_less)
  have s: "source_index b k i = y' * W + x'"
    by (simp add: source_index_def W_def H_def y'_def x'_def)
  have "(y' * W + x') div W = y'" "(y' * W + x') mod W = x'"
    using x' by simp_all
  then have "source_index b k (y' * W + x') =
      flip (\<not> (k = 0 \<or> k = 1)) H y' * W + flip (\<not> (k = 0 \<or> k = 2)) W x'"
    by (simp add: source_index_def W_def H_def)
  also have "\<dots> = i div W * W + i mod W"
    unfolding y'_def x'_def using x y by (simp add: flip_flip)
  also have "\<dots> = i" by simp
  finally show ?thesis by (simp add: s)
qed


lemma grid_index_in_range:
  fixes r c W H :: int
  assumes "0 \<le> r" "r < H" "0 \<le> c" "c < W"
  shows "0 \<le> r * W + c \<and> r * W + c < H * W"
proof -
  have "0 \<le> W" using assms by simp
  then have "0 \<le> r * W" using assms by simp
  moreover have "r * W + c < (r + 1) * W" using assms by (simp add: algebra_simps)
  moreover have "(r + 1) * W \<le> H * W"
    using assms \<open>0 \<le> W\<close> by (intro mult_right_mono) simp_all
  ultimately show ?thesis using assms by linarith
qed

lemma reorder_corners_eq:
  assumes len: "length corners = nat (corners_y b) * nat (corners_x b)"
  shows "reorder_corners b corners k =
         Some (map (\<lambda>i. corners ! source_index b k i) [0..<length corners])"
proof -
  define cx where "cx = corners_x b"
  define cy where "cy = corners_y b"
  define W where "W = nat cx"
  define H where "H = nat cy"
  define sx where "sx \<longleftrightarrow> k = 0 \<or> k = 2"
  define sy where "sy \<longleftrightarrow> k = 0 \<or> k = 1"
  define col where "col x = (if sx then 0 else cx - 1) + x * (if sx then 1 else - 1)" for x
  define row where "row y = (if sy then 0 else cy - 1) + y * (if sy then 1 else - 1)" for y
  have unfolded: "reorder_corners b corners k =
      fold (\<lambda>y. fold (\<lambda>x ordered. push_back ordered (vec_at corners (row y * cx + col x)))
        [0..cx - 1]) [0..cy - 1] (Some [])"
    by (simp add: reorder_corners_def Let_def row_def col_def sx_def sy_def cx_def cy_def)
  have col_range: "0 \<le> col x \<and> col x < cx" if "x \<in> set [0..cx - 1]" for x
    using that by (simp add: col_def)
  have row_range: "0 \<le> row y \<and> row y < cy" if "y \<in> set [0..cy - 1]" for y
    using that by (simp add: row_def)
  have reads: "\<forall>y\<in>set [0..cy - 1]. \<forall>x\<in>set [0..cx - 1].
      vec_at corners (row y * cx + col x) = Some (corners ! nat (row y * cx + col x))"
  proof (intro ballI)
    fix y x
    assume y: "y \<in> set [0..cy - 1]" and x: "x \<in> set [0..cx - 1]"
    have "0 \<le> row y * cx + col x \<and> row y * cx + col x < cy * cx"
      using row_range [OF y] col_range [OF x] by (intro grid_index_in_range) simp_all
    moreover have "int (length corners) = cy * cx"
      using y x by (simp add: len cx_def cy_def nat_mult_distrib [symmetric])
    ultimately show "vec_at corners (row y * cx + col x) = Some (corners ! nat (row y * cx + col x))"
      by (simp add: vec_at_def)
  qed
  have "reorder_corners b corners k =
      Some (concat (map (\<lambda>y. map (\<lambda>x. corners ! nat (row y * cx + col x)) [0..cx - 1])
        [0..cy - 1]))"
    unfolding unfolded using fold_fold_push_back [OF reads, of "[]"] by simp
  also have "concat (map (\<lambda>y. map (\<lambda>x. corners ! nat (row y * cx + col x)) [0..cx - 1])
        [0..cy - 1]) =
      concat (map (\<lambda>y. map (\<lambda>x. corners ! nat (row (int y) * cx + col (int x))) [0..<W])
        [0..<H])"
    by (simp add: upto_from_0 W_def H_def comp_def)
  also have "\<dots> = map (\<lambda>i. corners ! nat (row (int (i div W)) * cx + col (int (i mod W))))
      [0..<H * W]"
    by (rule concat_grid)
  also have "\<dots> = map (\<lambda>i. corners ! source_index b k i) [0..<H * W]"
  proof (rule map_cong [OF refl])
    fix i
    assume "i \<in> set [0..<H * W]"
    then have i: "i < H * W" by simp
    then have Wpos: "0 < W" by (cases W) simp_all
    then have cxpos: "0 < cx" by (simp add: W_def)
    have y: "i div W < H" using i Wpos by (simp add: less_mult_imp_div_less)
    then have cypos: "0 < cy" by (simp add: H_def)
    have x: "i mod W < W" using Wpos by simp
    have yi: "int (i div W) < cy"
      using y unfolding H_def by (simp add: zless_nat_eq_int_zless)
    have xi: "int (i mod W) < cx"
      using x unfolding W_def by (simp add: zless_nat_eq_int_zless)
    have r: "0 \<le> row (int (i div W))" "nat (row (int (i div W))) = flip (\<not> sy) H (i div W)"
      using yi by (auto simp add: row_def flip_def H_def nat_diff_distrib)
    have c: "0 \<le> col (int (i mod W))" "nat (col (int (i mod W))) = flip (\<not> sx) W (i mod W)"
      using xi by (auto simp add: col_def flip_def W_def nat_diff_distrib)
    have "nat (row (int (i div W)) * cx + col (int (i mod W))) =
        nat (row (int (i div W))) * W + nat (col (int (i mod W)))"
      using r(1) c(1) cxpos by (simp add: nat_add_distrib nat_mult_distrib W_def)
    also have "\<dots> = source_index b k i"
      unfolding r(2) c(2)
      by (simp add: source_index_def sx_def sy_def W_def H_def cx_def cy_def)
    finally show "corners ! nat (row (int (i div W)) * cx + col (int (i mod W))) =
        corners ! source_index b k i"
      by simp
  qed
  finally show ?thesis by (simp add: len H_def W_def cx_def cy_def)
qed


lemma generate_object_points_eq:
  "generate_object_points b =
     map (\<lambda>i. Point3f (real (i div nat (corners_x b)) * square_size b)
                     (real (i mod nat (corners_x b)) * square_size b) 0)
       [0..<nat (corners_y b) * nat (corners_x b)]"
proof -
  have "generate_object_points b =
      concat (map (\<lambda>y. map (\<lambda>x. Point3f (of_int y * square_size b) (of_int x * square_size b) 0)
        [0..corners_x b - 1]) [0..corners_y b - 1])"
    unfolding generate_object_points_def by (simp add: fold_fold_push)
  also have "\<dots> =
      concat (map (\<lambda>y. map (\<lambda>x. Point3f (real y * square_size b) (real x * square_size b) 0)
        [0..<nat (corners_x b)]) [0..<nat (corners_y b)])"
    by (simp add: upto_from_0 comp_def)
  also have "\<dots> = map (\<lambda>i. Point3f (real (i div nat (corners_x b)) * square_size b)
                     (real (i mod nat (corners_x b)) * square_size b) 0)
       [0..<nat (corners_y b) * nat (corners_x b)]"
    by (rule concat_grid)
  finally show ?thesis .
qed

lemma source_index_image:
  "source_index b k ` {0..<nat (corners_y b) * nat (corners_x b)} =
   {0..<nat (corners_y b) * nat (corners_x b)}"
proof (intro equalityI subsetI)
  fix j
  assume "j \<in> source_index b k ` {0..<nat (corners_y b) * nat (corners_x b)}"
  then show "j \<in> {0..<nat (corners_y b) * nat (corners_x b)}"
    by (auto simp add: source_index_less)
next
  fix j
  assume "j \<in> {0..<nat (corners_y b) * nat (corners_x b)}"
  then have j: "j < nat (corners_y b) * nat (corners_x b)" by simp
  have "source_index b k (source_index b k j) = j"
    using j by (rule source_index_involution)
  moreover have "source_index b k j \<in> {0..<nat (corners_y b) * nat (corners_x b)}"
    using source_index_less [OF j] by simp
  ultimately show "j \<in> source_index b k ` {0..<nat (corners_y b) * nat (corners_x b)}"
    by (metis imageI)
qed

lemma source_index_inj:
  "inj_on (source_index b k) {0..<nat (corners_y b) * nat (corners_x b)}"
proof (rule inj_on_inverseI)
  fix i
  assume "i \<in> {0..<nat (corners_y b) * nat (corners_x b)}"
  then show "source_index b k (source_index b k i) = i"
    by (simp add: source_index_involution)
qed

lemma mset_reindexed:
  assumes len: "length corners = nat (corners_y b) * nat (corners_x b)"
  shows "mset (map (\<lambda>i. corners ! source_index b k i) [0..<length corners]) = mset corners"
proof -
  let ?n = "nat (corners_y b) * nat (corners_x b)"
  have "mset (map (\<lambda>i. corners ! source_index b k i) [0..<?n]) =
      image_mset (\<lambda>i. corners ! source_index b k i) (mset_set {0..<?n})"
    by (simp only: mset_map mset_upt)
  also have "\<dots> = image_mset ((!) corners) (image_mset (source_index b k) (mset_set {0..<?n}))"
    by (simp only: multiset.map_comp comp_def)
  also have "image_mset (source_index b k) (mset_set {0..<?n}) = mset_set {0..<?n}"
    by (simp only: image_mset_mset_set [OF source_index_inj] source_index_image)
  also have "image_mset ((!) corners) (mset_set {0..<?n}) = mset (map ((!) corners) [0..<?n])"
    by (simp only: mset_map mset_upt)
  also have "map ((!) corners) [0..<?n] = corners"
    using map_nth [of corners] by (simp add: len)
  finally show ?thesis by (simp add: len)
qed

lemma grid_length:
  assumes "0 \<le> corners_x b" "0 \<le> corners_y b"
    and "int (length corners) = corners_y b * corners_x b"
  shows "length corners = nat (corners_y b) * nat (corners_x b)"
proof -
  have "length corners = nat (corners_y b * corners_x b)"
    using assms(3) by simp
  then show ?thesis using assms(1,2) by (simp add: nat_mult_distrib)
qed

subsection \<open>Object points\<close>

text \<open>
  C3. With \<open>rows = corners_y > 0\<close> and \<open>cols = corners_x > 0\<close> and any square size,
  \<open>generate_object_points\<close> returns exactly \<open>rows * cols\<close> points, every point has
  Z = 0, and the point at row-major index \<open>r * cols + c\<close> is
  \<open>(r * square_size, c * square_size, 0)\<close>: the row index is the slow one.
\<close>

theorem generate_object_points_grid:
  assumes "0 < corners_y b" and "0 < corners_x b"
  shows "int (length (generate_object_points b)) = corners_y b * corners_x b \<and>
         (\<forall>p\<in>set (generate_object_points b). p3_z p = 0) \<and>
         (\<forall>r c. 0 \<le> r \<and> r < corners_y b \<and> 0 \<le> c \<and> c < corners_x b \<longrightarrow>
            generate_object_points b ! nat (r * corners_x b + c) =
              Point3f (of_int r * square_size b) (of_int c * square_size b) 0)"
proof (intro conjI allI impI)
  show "int (length (generate_object_points b)) = corners_y b * corners_x b"
    using assms by (simp add: generate_object_points_eq nat_mult_distrib [symmetric])
next
  show "\<forall>p\<in>set (generate_object_points b). p3_z p = 0"
    by (auto simp add: generate_object_points_eq)
next
  fix r c
  assume rc: "0 \<le> r \<and> r < corners_y b \<and> 0 \<le> c \<and> c < corners_x b"
  define W where "W = nat (corners_x b)"
  define H where "H = nat (corners_y b)"
  have r: "nat r < H" and c: "nat c < W" using rc by (simp_all add: H_def W_def)
  have idx: "nat (r * corners_x b + c) = nat r * W + nat c"
    using rc by (simp add: nat_add_distrib nat_mult_distrib W_def)
  have less: "nat r * W + nat c < H * W"
    using r c by (rule grid_index_less)
  have quot: "(nat r * W + nat c) div W = nat r" and rem: "(nat r * W + nat c) mod W = nat c"
    using c by simp_all
  have eq: "generate_object_points b =
      map (\<lambda>i. Point3f (real (i div W) * square_size b) (real (i mod W) * square_size b) 0)
        [0..<H * W]"
    by (simp only: generate_object_points_eq W_def H_def)
  have "generate_object_points b ! (nat r * W + nat c) =
      Point3f (real (nat r) * square_size b) (real (nat c) * square_size b) 0"
    unfolding eq using less by (simp only: nth_map length_upt nth_upt diff_zero add_0 quot rem)
  then show "generate_object_points b ! nat (r * corners_x b + c) =
      Point3f (of_int r * square_size b) (of_int c * square_size b) 0"
    using rc by (simp add: idx)
qed

theorem generate_object_points_grid_witness:
  "0 < corners_y (Chessboard 3 2 (1 / 2)) \<and> 0 < corners_x (Chessboard 3 2 (1 / 2)) \<and>
   generate_object_points (Chessboard 3 2 (1 / 2)) =
     [Point3f 0 0 0, Point3f 0 (1 / 2) 0, Point3f 0 1 0,
      Point3f (1 / 2) 0 0, Point3f (1 / 2) (1 / 2) 0, Point3f (1 / 2) 1 0] \<and>
   int (length (generate_object_points (Chessboard 3 2 (1 / 2)))) = 2 * 3 \<and>
   generate_object_points (Chessboard 3 2 (1 / 2)) ! nat (1 * 3 + 2) = Point3f (1 / 2) 1 0"
proof -
  have rows: "0 < corners_y (Chessboard 3 2 (1 / 2))"
    and cols: "0 < corners_x (Chessboard 3 2 (1 / 2))"
    by (simp_all add: Chessboard_def)
  have run: "generate_object_points (Chessboard 3 2 (1 / 2)) =
     [Point3f 0 0 0, Point3f 0 (1 / 2) 0, Point3f 0 1 0,
      Point3f (1 / 2) 0 0, Point3f (1 / 2) (1 / 2) 0, Point3f (1 / 2) 1 0]"
    by code_simp
  have "0 \<le> (1::int) \<and> 1 < corners_y (Chessboard 3 2 (1 / 2)) \<and>
        0 \<le> (2::int) \<and> 2 < corners_x (Chessboard 3 2 (1 / 2)) \<longrightarrow>
      generate_object_points (Chessboard 3 2 (1 / 2)) !
        nat (1 * corners_x (Chessboard 3 2 (1 / 2)) + 2) =
      Point3f (of_int 1 * square_size (Chessboard 3 2 (1 / 2)))
        (of_int 2 * square_size (Chessboard 3 2 (1 / 2))) 0"
    using generate_object_points_grid [OF rows cols] by blast
  then have "generate_object_points (Chessboard 3 2 (1 / 2)) ! nat (1 * 3 + 2) =
      Point3f (1 / 2) 1 0"
    by (simp add: Chessboard_def)
  then show ?thesis
    using rows cols run generate_object_points_grid [OF rows cols] by simp
qed

text \<open>
  C6 as stated does not hold: the function has no check of its dimensions. With
  \<open>corners_y = 0\<close> (and likewise with a non-positive \<open>corners_x\<close>) the loops do not run
  and the call returns the empty vector as its result.
\<close>

theorem generate_object_points_accepts_zero_rows:
  "generate_object_points (Chessboard 7 0 1) = []"
  by code_simp

text \<open>
  C6, amended. When \<open>rows \<le> 0\<close> or \<open>cols \<le> 0\<close>, \<open>generate_object_points\<close> does not
  fail: it returns the empty point list.
\<close>

theorem generate_object_points_degenerate:
  assumes "corners_y b \<le> 0 \<or> corners_x b \<le> 0"
  shows "generate_object_points b = []"
  using assms by (auto simp add: generate_object_points_eq)

theorem generate_object_points_degenerate_witness:
  "(corners_y (Chessboard (- 2) 7 1) \<le> 0 \<or> corners_x (Chessboard (- 2) 7 1) \<le> 0) \<and>
   generate_object_points (Chessboard (- 2) 7 1) = []"
proof -
  have bad: "corners_y (Chessboard (- 2) 7 1) \<le> 0 \<or> corners_x (Chessboard (- 2) 7 1) \<le> 0"
    by (simp add: Chessboard_def)
  show ?thesis
    using bad generate_object_points_degenerate [OF bad] by simp
qed

subsection \<open>Reordering\<close>

text \<open>
  C8. For a board with \<open>rows = corners_y\<close> and \<open>cols = corners_x\<close> (numbers of corners,
  so not negative), every corner list of length \<open>rows * cols\<close> and every index
  (0, 1, 2, 3, and any other value, which the source treats like 3), 
  \<open>reorder_corners\<close> reads inside the list, its output has length \<open>rows * cols\<close> and
  is a permutation of the input: the same points with the same multiplicities.
\<close>

theorem reorder_corners_permutation:
  assumes "0 \<le> corners_x b" and "0 \<le> corners_y b"
    and "int (length corners) = corners_y b * corners_x b"
  shows "\<exists>ordered. reorder_corners b corners a1_index = Some ordered \<and>
           int (length ordered) = corners_y b * corners_x b \<and>
           mset ordered = mset corners"
proof -
  have len: "length corners = nat (corners_y b) * nat (corners_x b)"
    using assms by (rule grid_length)
  have "reorder_corners b corners a1_index =
      Some (map (\<lambda>i. corners ! source_index b a1_index i) [0..<length corners])"
    using len by (rule reorder_corners_eq)
  moreover have "mset (map (\<lambda>i. corners ! source_index b a1_index i) [0..<length corners]) =
      mset corners"
    using len by (rule mset_reindexed)
  ultimately show ?thesis using assms(3) by simp
qed

theorem reorder_corners_permutation_witness:
  "0 \<le> corners_x (Chessboard 3 2 1) \<and> 0 \<le> corners_y (Chessboard 3 2 1) \<and>
   int (length grid_2x3) = corners_y (Chessboard 3 2 1) * corners_x (Chessboard 3 2 1) \<and>
   reorder_corners (Chessboard 3 2 1) grid_2x3 1 =
     Some [Point2f 30 10, Point2f 20 10, Point2f 10 10,
           Point2f 30 20, Point2f 20 20, Point2f 10 20] \<and>
   mset [Point2f 30 10, Point2f 20 10, Point2f 10 10,
         Point2f 30 20, Point2f 20 20, Point2f 10 20] = mset grid_2x3"
proof -
  have cx: "0 \<le> corners_x (Chessboard 3 2 1)" and cy: "0 \<le> corners_y (Chessboard 3 2 1)"
    by (simp_all add: Chessboard_def)
  have len: "int (length grid_2x3) = corners_y (Chessboard 3 2 1) * corners_x (Chessboard 3 2 1)"
    by (simp add: Chessboard_def grid_2x3_def)
  have run: "reorder_corners (Chessboard 3 2 1) grid_2x3 1 =
     Some [Point2f 30 10, Point2f 20 10, Point2f 10 10,
           Point2f 30 20, Point2f 20 20, Point2f 10 20]"
    by code_simp
  show ?thesis
    using cx cy len run reorder_corners_permutation [OF cx cy len, of 1] by simp
qed

text \<open>
  C9. For every fixed index, \<open>reorder_corners\<close> applied twice to a corner list of length
  \<open>rows * cols\<close> gives the list back.
\<close>

theorem reorder_corners_involution:
  assumes "0 \<le> corners_x b" and "0 \<le> corners_y b"
    and "int (length corners) = corners_y b * corners_x b"
  shows "\<exists>ordered. reorder_corners b corners a1_index = Some ordered \<and>
           reorder_corners b ordered a1_index = Some corners"
proof -
  let ?n = "nat (corners_y b) * nat (corners_x b)"
  let ?ordered = "map (\<lambda>i. corners ! source_index b a1_index i) [0..<length corners]"
  have len: "length corners = ?n"
    using assms by (rule grid_length)
  have first: "reorder_corners b corners a1_index = Some ?ordered"
    using len by (rule reorder_corners_eq)
  have len': "length ?ordered = ?n" by (simp add: len)
  have "reorder_corners b ?ordered a1_index =
      Some (map (\<lambda>i. ?ordered ! source_index b a1_index i) [0..<length ?ordered])"
    using len' by (rule reorder_corners_eq)
  also have "map (\<lambda>i. ?ordered ! source_index b a1_index i) [0..<length ?ordered] =
      map ((!) corners) [0..<length corners]"
  proof (rule nth_equalityI)
    show "length (map (\<lambda>i. ?ordered ! source_index b a1_index i) [0..<length ?ordered]) =
        length (map ((!) corners) [0..<length corners])"
      by simp
  next
    fix i
    assume "i < length (map (\<lambda>i. ?ordered ! source_index b a1_index i) [0..<length ?ordered])"
    then have i: "i < ?n" by (simp add: len)
    have less: "source_index b a1_index i < ?n" using i by (rule source_index_less)
    have twice: "source_index b a1_index (source_index b a1_index i) = i"
      using i by (rule source_index_involution)
    show "map (\<lambda>i. ?ordered ! source_index b a1_index i) [0..<length ?ordered] ! i =
        map ((!) corners) [0..<length corners] ! i"
      using i less twice by (simp add: len)
  qed
  also have "map ((!) corners) [0..<length corners] = corners"
    by (rule map_nth)
  finally show ?thesis using first by blast
qed

theorem reorder_corners_involution_witness:
  "0 \<le> corners_x (Chessboard 3 2 1) \<and> 0 \<le> corners_y (Chessboard 3 2 1) \<and>
   int (length grid_2x3) = corners_y (Chessboard 3 2 1) * corners_x (Chessboard 3 2 1) \<and>
   reorder_corners (Chessboard 3 2 1) grid_2x3 2 =
     Some [Point2f 10 20, Point2f 20 20, Point2f 30 20,
           Point2f 10 10, Point2f 20 10, Point2f 30 10] \<and>
   reorder_corners (Chessboard 3 2 1)
     [Point2f 10 20, Point2f 20 20, Point2f 30 20,
      Point2f 10 10, Point2f 20 10, Point2f 30 10] 2 = Some grid_2x3"
proof -
  have cx: "0 \<le> corners_x (Chessboard 3 2 1)" and cy: "0 \<le> corners_y (Chessboard 3 2 1)"
    by (simp_all add: Chessboard_def)
  have len: "int (length grid_2x3) = corners_y (Chessboard 3 2 1) * corners_x (Chessboard 3 2 1)"
    by (simp add: Chessboard_def grid_2x3_def)
  have run: "reorder_corners (Chessboard 3 2 1) grid_2x3 2 =
     Some [Point2f 10 20, Point2f 20 20, Point2f 30 20,
           Point2f 10 10, Point2f 20 10, Point2f 30 10]"
    by code_simp
  show ?thesis
    using cx cy len run reorder_corners_involution [OF cx cy len, of 2] by simp
qed

section \<open>Properties of the pose search\<close>

subsection \<open>One candidate\<close>

lemma sum_distances_fold:
  "n \<le> length proj \<Longrightarrow> n \<le> length test \<Longrightarrow>
   fold (\<lambda>i err. do {
             e \<leftarrow> err;
             p \<leftarrow> vec_at proj (int i);
             q \<leftarrow> vec_at test (int i);
             Some (e + cv_norm (pt_sub p q))
           }) [0..<n] (Some a) =
   Some (a + (\<Sum>i\<leftarrow>[0..<n]. cv_norm (pt_sub (proj ! i) (test ! i))))"
  by (induction n) (simp_all add: vec_at_def)

lemma sum_distances_eq:
  "length proj \<le> length test \<Longrightarrow>
   sum_distances proj test = Some (\<Sum>i\<leftarrow>[0..<length proj]. cv_norm (pt_sub (proj ! i) (test ! i)))"
  unfolding sum_distances_def using sum_distances_fold [of "length proj" proj test 0] by simp

lemma fold_None:
  "(\<And>x. f x None = None) \<Longrightarrow> fold f xs None = None"
  by (induction xs) simp_all

lemma sum_distances_None:
  assumes "length test < length proj"
  shows "sum_distances proj test = None"
proof -
  let ?f = "\<lambda>i err. do {
             e \<leftarrow> err;
             p \<leftarrow> vec_at proj (int i);
             q \<leftarrow> vec_at test (int i);
             Some (e + cv_norm (pt_sub p q))
           }"
  have split: "[0..<length proj] = [0..<length test] @ length test # [Suc (length test)..<length proj]"
    using assms by (metis le0 upt_conv_Cons upt_add_eq_append le_add_diff_inverse less_imp_le)
  have none: "fold ?f xs None = None" for xs
    by (rule fold_None) simp
  have "?f (length test) st = None" for st
    by (cases st) (simp_all add: vec_at_def)
  then show ?thesis
    unfolding sum_distances_def split by (simp add: none)
qed

lemma sum_distances_Some:
  "sum_distances proj test = Some err \<Longrightarrow>
   length proj \<le> length test \<and>
   err = (\<Sum>i\<leftarrow>[0..<length proj]. cv_norm (pt_sub (proj ! i) (test ! i)))"
  using sum_distances_None [of test proj] sum_distances_eq [of proj test]
  by (cases "length proj \<le> length test") simp_all

lemma evaluate_candidate_valid:
  assumes "evaluate_candidate cv K d corners k = Some c" and "z_ok c"
  shows "\<exists>test err r22.
      reorder_corners detector corners k = Some test \<and>
      test_corners c = test \<and>
      rvec c = fst (snd (solvePnP cv (generate_object_points detector) test K d)) \<and>
      tvec c = snd (snd (solvePnP cv (generate_object_points detector) test K d)) \<and>
      pnp_ok c \<and>
      fst (solvePnP cv (generate_object_points detector) test K d) \<and>
      mat_at (Rodrigues cv (rvec c)) 2 2 = Some r22 \<and> 0 < r22 \<and>
      projectPoints cv (generate_object_points detector) (rvec c) (tvec c) K d \<noteq> [] \<and>
      sum_distances (projectPoints cv (generate_object_points detector) (rvec c) (tvec c) K d) test
        = Some err \<and>
      reproj_err c =
        err / real (length (projectPoints cv (generate_object_points detector) (rvec c) (tvec c) K d)) \<and>
      reproj_err c \<le> 15"
  using assms unfolding evaluate_candidate_def
  by (auto simp add: Let_def split: bind_splits prod.splits if_splits)


lemma cvRound_nonneg: "0 \<le> v \<Longrightarrow> 0 \<le> cvRound v"
  by (simp add: cvRound_def Let_def)

lemma cvRound_le: 
  assumes "v \<le> of_int n" 
  shows "cvRound v \<le> n"
proof -
  have fl: "\<lfloor>v\<rfloor> \<le> n" using assms by (simp add: floor_le_iff)
  show ?thesis
  proof (cases "\<lfloor>v\<rfloor> = n")
    case True
    then have "v - of_int \<lfloor>v\<rfloor> \<le> 0" using assms by simp
    then show ?thesis using True by (simp add: cvRound_def Let_def)
  next
    case False
    then have "\<lfloor>v\<rfloor> + 1 \<le> n" using fl by simp
    then show ?thesis using fl by (simp add: cvRound_def Let_def)
  qed
qed

lemma roi_mean_defined:
  assumes "\<not> outside_margin gray pt"
  shows "\<exists>val. roi_mean gray pt = Some val"
proof -
  from assms have x: "2 \<le> pt_x pt" "pt_x pt \<le> of_int (img_cols gray - 3)"
    and y: "2 \<le> pt_y pt" "pt_y pt \<le> of_int (img_rows gray - 3)"
    by (simp_all add: outside_margin_def not_less)
  have "0 \<le> cvRound (pt_x pt - 2)" using x(1) by (intro cvRound_nonneg) simp
  moreover have "cvRound (pt_x pt - 2) \<le> img_cols gray - 5"
    using x(2) by (intro cvRound_le) simp
  moreover have "0 \<le> cvRound (pt_y pt - 2)" using y(1) by (intro cvRound_nonneg) simp
  moreover have "cvRound (pt_y pt - 2) \<le> img_rows gray - 5"
    using y(2) by (intro cvRound_le) simp
  ultimately have "roi_mean gray pt =
      Some ((\<Sum>j\<leftarrow>[0..4]. \<Sum>i\<leftarrow>[0..4].
               real (unat (img_at gray (cvRound (pt_y pt - 2) + j) (cvRound (pt_x pt - 2) + i)))) / 25)"
    by (simp add: roi_mean_def Let_def)
  then show ?thesis by (rule exI)
qed



lemma outer_corners_of_defined:
  assumes "length corners = 49"
  shows "\<exists>outer. outer_corners_of CORNERS_Y CORNERS_X corners = Some outer"
  using assms by (simp add: outer_corners_of_def CORNERS_X_def CORNERS_Y_def vec_at_def Let_def)


lemma select_fold_defined:
  assumes "\<forall>k\<in>set ks. cand k = Some (cf k)"
  shows "fold (\<lambda>a1_index st. do {
             best \<leftarrow> st;
             c \<leftarrow> cand a1_index;
             Some (keep_better a1_index c best)
           }) ks (Some b) = Some (fold (\<lambda>k. keep_better k (cf k)) ks b)"
  using assms by (induction ks arbitrary: b) simp_all



lemma select_none:
  "\<forall>k\<in>set ks. \<not> z_ok (cf k) \<Longrightarrow> fold (\<lambda>k. keep_better k (cf k)) ks b = b"
  by (induction ks arbitrary: b) (simp_all add: keep_better_def)

lemma keep_better_yes:
  "z_ok c \<and> reproj_err c < best_reproj_err b \<Longrightarrow>
   keep_better k c b =
     b\<lparr>best_reproj_err := reproj_err c, best_a1 := k, best_corners := test_corners c,
       best_rvec := rvec c, best_tvec := tvec c\<rparr>"
  by (simp add: keep_better_def)

lemma keep_better_no:
  "\<not> (z_ok c \<and> reproj_err c < best_reproj_err b) \<Longrightarrow> keep_better k c b = b"
  unfolding keep_better_def by (rule if_not_P)

lemma select_best:
  assumes "sorted_wrt (<) ks"
    and "\<forall>k\<in>set ks. z_ok (cf k) \<longrightarrow> reproj_err (cf k) < 1000000000"
    and "\<exists>k\<in>set ks. z_ok (cf k)"
  shows "let r = fold (\<lambda>k. keep_better k (cf k)) ks (start_pose vals) in
         best_a1 r \<in> set ks \<and> z_ok (cf (best_a1 r)) \<and>
         best_reproj_err r = reproj_err (cf (best_a1 r)) \<and>
         best_corners r = test_corners (cf (best_a1 r)) \<and>
         best_rvec r = rvec (cf (best_a1 r)) \<and>
         best_tvec r = tvec (cf (best_a1 r)) \<and>
         (\<forall>j\<in>set ks. z_ok (cf j) \<longrightarrow>
            reproj_err (cf (best_a1 r)) \<le> reproj_err (cf j) \<and>
            (reproj_err (cf j) = reproj_err (cf (best_a1 r)) \<longrightarrow> best_a1 r \<le> j))"
  using assms
proof (induction ks rule: rev_induct)
  case Nil
  then show ?case by simp
next
  case (snoc x ks)
  let ?r = "fold (\<lambda>k. keep_better k (cf k)) ks (start_pose vals)"
  have sorted: "sorted_wrt (<) ks" and before: "\<forall>j\<in>set ks. j < x"
    using snoc.prems(1) by (simp_all add: sorted_wrt_append)
  have bound: "\<forall>k\<in>set ks. z_ok (cf k) \<longrightarrow> reproj_err (cf k) < 1000000000"
    using snoc.prems(2) by simp
  have step: "fold (\<lambda>k. keep_better k (cf k)) (ks @ [x]) (start_pose vals) = keep_better x (cf x) ?r"
    by simp
  show ?case
  proof (cases "\<exists>k\<in>set ks. z_ok (cf k)")
    case False
    then have none: "?r = start_pose vals"
      by (intro select_none) simp
    from False snoc.prems(3) have zx: "z_ok (cf x)" by auto
    then have "reproj_err (cf x) < 1000000000" using snoc.prems(2) by simp
    then have "keep_better x (cf x) ?r =
        (start_pose vals)\<lparr>best_reproj_err := reproj_err (cf x), best_a1 := x,
          best_corners := test_corners (cf x), best_rvec := rvec (cf x), best_tvec := tvec (cf x)\<rparr>"
      using zx unfolding none by (simp add: keep_better_def start_pose_def)
    then show ?thesis
      unfolding step using zx False before by (auto simp add: Let_def)
  next
    case True
    note IH = snoc.IH [OF sorted bound True, unfolded Let_def]
    show ?thesis
    proof (cases "z_ok (cf x) \<and> reproj_err (cf x) < best_reproj_err ?r")
      case yes: True
      have "keep_better x (cf x) ?r =
          ?r\<lparr>best_reproj_err := reproj_err (cf x), best_a1 := x,
            best_corners := test_corners (cf x), best_rvec := rvec (cf x), best_tvec := tvec (cf x)\<rparr>"
        using yes by (rule keep_better_yes)
      then show ?thesis
        unfolding step using yes IH before by (fastforce simp add: Let_def)
    next
      case no: False
      have "keep_better x (cf x) ?r = ?r"
        using no by (rule keep_better_no)
      then show ?thesis
        unfolding step using no IH before by (fastforce simp add: Let_def)
    qed
  qed
qed

lemma select_fold_Some:
  assumes "fold (\<lambda>a1_index st. do {
             best \<leftarrow> st;
             c \<leftarrow> cand a1_index;
             Some (keep_better a1_index c best)
           }) ks st = Some r"
  shows "\<exists>b. st = Some b \<and> (\<forall>k\<in>set ks. \<exists>c. cand k = Some c)"
  using assms
proof (induction ks arbitrary: st)
  case Nil
  then show ?case by simp
next
  case (Cons k ks)
  from Cons.IH [OF Cons.prems [simplified]]
  obtain b' where b': "(do { best \<leftarrow> st; c \<leftarrow> cand k; Some (keep_better k c best) }) = Some b'"
    and rest: "\<forall>k\<in>set ks. \<exists>c. cand k = Some c"
    by blast
  from b' show ?case using rest by (auto split: bind_splits)
qed

lemma find_best_pose_Some:
  assumes "find_best_pose cv corners frame gray = Some best"
  shows "\<exists>vals. fold (\<lambda>a1_index st. do {
             best \<leftarrow> st;
             c \<leftarrow> candidate_of cv frame corners a1_index;
             Some (keep_better a1_index c best)
           }) [0, 1, 2, 3] (Some (start_pose vals)) = Some best"
  using assms
  unfolding find_best_pose_def candidate_of_def start_pose_def Let_def
  by (auto split: bind_splits)

lemma candidate_bound:
  assumes "candidate_of cv frame corners k = Some c" and "z_ok c"
  shows "reproj_err c < 1000000000"
proof -
  have "reproj_err c \<le> 15"
    using evaluate_candidate_valid [OF assms [unfolded candidate_of_def]] by blast
  then show ?thesis by simp
qed

lemma start_pose_a1: "best_a1 (start_pose vals) = - 1"
  by (simp add: start_pose_def)






subsection \<open>The model on the test inputs\<close>

lemma outer_vals_flat: "outer_corners_of CORNERS_Y CORNERS_X (grid_7x7 100 100 20 20) \<bind>
   (\<lambda>outer. fold (outer_val_step (flat_image 640 480 128) outer) [0..<4] (Some (replicate 4 1000000)))
   = Some [128, 128, 128, 128]"
  by code_simp

lemma grid_7x7_length: "length (grid_7x7 x0 y0 sx sy) = 49"
  by (simp add: grid_7x7_def)

lemma cv_norm_horizontal: "cv_norm (Point2f a 0) = \<bar>a\<bar>"
  by (simp add: cv_norm_def)

lemma shifted_distances:
  "sum_distances (grid_7x7 (100 + s) 100 20 20) (grid_7x7 100 100 20 20) = Some (49 * \<bar>s\<bar>)"
proof -
  have "(\<Sum>i\<leftarrow>[0..<49]. cv_norm (pt_sub (grid_7x7 (100 + s) 100 20 20 ! i) (grid_7x7 100 100 20 20 ! i)))
      = (\<Sum>i\<leftarrow>[0..<49]. \<bar>s\<bar>)"
  proof (rule arg_cong [where f = sum_list], rule map_cong [OF refl])
    fix i :: nat
    assume "i \<in> set [0..<49]"
    then have "i < 49" by simp
    then show "cv_norm (pt_sub (grid_7x7 (100 + s) 100 20 20 ! i) (grid_7x7 100 100 20 20 ! i)) = \<bar>s\<bar>"
      by (simp add: grid_7x7_def pt_sub_def cv_norm_horizontal)
  qed
  also have "\<dots> = 49 * \<bar>s\<bar>"
    by (simp add: sum_list_triv)
  finally show ?thesis
    using sum_distances_eq [of "grid_7x7 (100 + s) 100 20 20" "grid_7x7 100 100 20 20"]
    by (simp add: grid_7x7_length)
qed

lemma shifted_projection:
  "projectPoints (shifted_camera s) (generate_object_points detector) rv tv K d =
   grid_7x7 (100 + s) 100 20 20"
  by (simp add: shifted_camera_def generate_object_points_eq detector_def Chessboard_def
      CORNERS_X_def CORNERS_Y_def SQUARE_SIZE_def grid_7x7_def)

lemma detector_reorder_eq:
  "reorder_corners detector (grid_7x7 x0 y0 sx sy) k =
   Some (map (\<lambda>i. grid_7x7 x0 y0 sx sy ! source_index detector k i) [0..<49])"
proof -
  have "length (grid_7x7 x0 y0 sx sy) = nat (corners_y detector) * nat (corners_x detector)"
    by (simp add: grid_7x7_length detector_def Chessboard_def CORNERS_X_def CORNERS_Y_def)
  from reorder_corners_eq [OF this, of k] show ?thesis
    by (simp add: grid_7x7_length)
qed

lemma source_index_detector_0: "i < 49 \<Longrightarrow> source_index detector 0 i = i"
  by (simp add: source_index_def flip_def detector_def Chessboard_def CORNERS_X_def CORNERS_Y_def)

lemma reorder_identity:
  "reorder_corners detector (grid_7x7 x0 y0 sx sy) 0 = Some (grid_7x7 x0 y0 sx sy)"
proof -
  have "map (\<lambda>i. grid_7x7 x0 y0 sx sy ! source_index detector 0 i) [0..<49] =
      map ((!) (grid_7x7 x0 y0 sx sy)) [0..<length (grid_7x7 x0 y0 sx sy)]"
    unfolding grid_7x7_length by (rule map_cong [OF refl]) (simp add: source_index_detector_0)
  also have "\<dots> = grid_7x7 x0 y0 sx sy" by (rule map_nth)
  finally show ?thesis by (simp add: detector_reorder_eq)
qed

lemma reorder_first_corner:
  "k = 1 \<or> k = 2 \<or> k = 3 \<Longrightarrow>
   \<exists>test. reorder_corners detector (grid_7x7 100 100 20 20) k = Some test \<and>
     vec_at test 0 \<noteq> Some (Point2f 100 100)"
  unfolding detector_reorder_eq
  by (auto simp add: vec_at_def source_index_def flip_def detector_def Chessboard_def
      CORNERS_X_def CORNERS_Y_def grid_7x7_def)

lemma mat_at_identity3: "mat_at identity3 2 2 = Some 1"
  by (simp add: mat_at_def vec_at_def identity3_def)

lemma shifted_candidate_0:
  "evaluate_candidate (shifted_camera s) K d (grid_7x7 100 100 20 20) 0 =
   Some \<lparr>test_corners = grid_7x7 100 100 20 20, rvec = [[0], [0], [0]], tvec = [[0], [0], [10]],
         pnp_ok = True, z_ok = (\<bar>s\<bar> \<le> 15), reproj_err = \<bar>s\<bar>\<rparr>"
proof -
  have pnp: "solvePnP (shifted_camera s) obj (grid_7x7 100 100 20 20) K d =
      (True, [[0], [0], [0]], [[0], [0], [10]])" for obj
    by (simp add: shifted_camera_def vec_at_def grid_7x7_def)
  have rod: "Rodrigues (shifted_camera s) rv = identity3" for rv
    by (simp add: shifted_camera_def)
  have ne: "grid_7x7 (100 + s) 100 20 20 \<noteq> []"
    using grid_7x7_length [of "100 + s" 100 20 20] by auto
  show ?thesis
    unfolding evaluate_candidate_def
    by (simp add: reorder_identity pnp rod mat_at_identity3 shifted_projection shifted_distances
        ne grid_7x7_length Let_def not_less)
qed

lemma shifted_candidate_other:
  assumes "k = 1 \<or> k = 2 \<or> k = 3"
  shows "\<exists>c. evaluate_candidate (shifted_camera s) K d (grid_7x7 100 100 20 20) k = Some c \<and>
             \<not> z_ok c"
proof -
  obtain test where test: "reorder_corners detector (grid_7x7 100 100 20 20) k = Some test"
    "vec_at test 0 \<noteq> Some (Point2f 100 100)"
    using reorder_first_corner [OF assms] by blast
  have pnp: "solvePnP (shifted_camera s) obj test K d = (False, [[0], [0], [0]], [[0], [0], [10]])" for obj
    using test(2) by (simp add: shifted_camera_def)
  show ?thesis
    unfolding evaluate_candidate_def by (simp add: test(1) pnp Let_def)
qed

lemma shifted_pose:
  assumes "\<bar>s\<bar> \<le> 15"
  shows "find_best_pose (shifted_camera s) (grid_7x7 100 100 20 20)
           (flat_image 640 480 128) (flat_image 640 480 128) =
         Some \<lparr>outer_vals = [128, 128, 128, 128], best_corners = grid_7x7 100 100 20 20,
               best_rvec = [[0], [0], [0]], best_tvec = [[0], [0], [10]],
               best_a1 = 0, best_reproj_err = \<bar>s\<bar>\<rparr>"
proof -
  let ?cam = "shifted_camera s"
  let ?frame = "flat_image 640 480 128"
  let ?grid = "grid_7x7 100 100 20 20"
  let ?ks = "[0, 1, 2, 3] :: int list"
  let ?c0 = "\<lparr>test_corners = ?grid, rvec = [[0], [0], [0]], tvec = [[0], [0], [10]],
         pnp_ok = True, z_ok = (\<bar>s\<bar> \<le> 15), reproj_err = \<bar>s\<bar>\<rparr>"
  have c0: "candidate_of ?cam ?frame ?grid 0 = Some ?c0"
    unfolding candidate_of_def by (rule shifted_candidate_0)
  obtain c1 where c1: "candidate_of ?cam ?frame ?grid 1 = Some c1" "\<not> z_ok c1"
    unfolding candidate_of_def using shifted_candidate_other [of 1] by blast
  obtain c2 where c2: "candidate_of ?cam ?frame ?grid 2 = Some c2" "\<not> z_ok c2"
    unfolding candidate_of_def using shifted_candidate_other [of 2] by blast
  obtain c3 where c3: "candidate_of ?cam ?frame ?grid 3 = Some c3" "\<not> z_ok c3"
    unfolding candidate_of_def using shifted_candidate_other [of 3] by blast
  define cf where "cf k = (if k = 0 then ?c0 else if k = 1 then c1 else if k = 2 then c2 else c3)"
    for k :: int
  have cf: "\<forall>k\<in>set ?ks. candidate_of ?cam ?frame ?grid k = Some (cf k)"
    by (simp add: cf_def c0 c1(1) c2(1) c3(1))
  obtain outer where outer: "outer_corners_of CORNERS_Y CORNERS_X ?grid = Some outer"
    using outer_corners_of_defined [OF grid_7x7_length] by blast
  have vals: "fold (outer_val_step ?frame outer) [0..<4] (Some (replicate 4 1000000))
      = Some [128, 128, 128, 128]"
    using outer_vals_flat by (simp add: outer)
  have "find_best_pose ?cam ?grid ?frame ?frame =
      fold (\<lambda>a1_index st. do {
             best \<leftarrow> st;
             c \<leftarrow> candidate_of ?cam ?frame ?grid a1_index;
             Some (keep_better a1_index c best)
           }) ?ks (Some (start_pose [128, 128, 128, 128]))"
    unfolding find_best_pose_def candidate_of_def start_pose_def Let_def
    by (simp only: outer vals bind.bind_lunit)
  also have "\<dots> = Some (fold (\<lambda>k. keep_better k (cf k)) ?ks (start_pose [128, 128, 128, 128]))"
    using cf by (rule select_fold_defined)
  also have "fold (\<lambda>k. keep_better k (cf k)) ?ks (start_pose [128, 128, 128, 128]) =
      \<lparr>outer_vals = [128, 128, 128, 128], best_corners = ?grid,
       best_rvec = [[0], [0], [0]], best_tvec = [[0], [0], [10]],
       best_a1 = 0, best_reproj_err = \<bar>s\<bar>\<rparr>"
    using assms c1(2) c2(2) c3(2) by (simp add: cf_def keep_better_def start_pose_def)
  finally show ?thesis .
qed

















subsection \<open>The gates of a candidate\<close>

text \<open>
  C1 as stated does not hold at the bound: the source rejects a candidate when
  \<open>reproj_err > 15.0\<close>, so a mean error of exactly 15 passes. On \<open>test_grid\<close>, with
  every projected point 15 pixels to the right of its corner, candidate 0 has mean error 15,
  which is not below 15; it is valid and it is the one selected.
\<close>

theorem mean_error_15_is_selected:
  "candidate_of (shifted_camera 15) test_frame test_grid 0 =
     Some \<lparr>test_corners = test_grid, rvec = [[0], [0], [0]], tvec = [[0], [0], [10]],
           pnp_ok = True, z_ok = True, reproj_err = 15\<rparr> \<and>
   \<not> (15 :: real) < 15 \<and>
   find_best_pose (shifted_camera 15) test_grid test_frame test_frame = Some (test_pose 15) \<and>
   best_a1 (test_pose 15) = 0"
  using shifted_candidate_0 [of 15 "provisional_K test_frame" "Mat_zeros 5 1"] shifted_pose [of 15]
  by (simp add: candidate_of_def test_grid_def test_frame_def test_pose_def)

text \<open>
  C1, amended. Whenever \<open>find_best_pose\<close> selects an index (\<open>best_a1\<close> is not -1), the
  index is one of 0, 1, 2, 3 and its candidate passed all three gates: the pose solve on the
  reordered corners returned \<open>true\<close>, the entry of the rotation matrix at row 3, column 3
  (\<open>R.at(2,2)\<close>) is positive, and the mean over the projected points of the distance
  between projected point and reordered corner is at most 15 (not: strictly below 15). The
  outputs are the data of that candidate. The projected points are as many as
  \<open>cv::projectPoints\<close> returns, one per object point, so \<open>rows * cols = 49\<close> of them.
\<close>

theorem selected_pose_passes_gates:
  assumes "find_best_pose cv corners frame gray = Some best" and "best_a1 best \<noteq> - 1"
  shows "\<exists>c test r22.
      best_a1 best \<in> {0, 1, 2, 3} \<and>
      candidate_of cv frame corners (best_a1 best) = Some c \<and>
      reorder_corners detector corners (best_a1 best) = Some test \<and>
      best_corners best = test \<and> best_rvec best = rvec c \<and> best_tvec best = tvec c \<and>
      best_reproj_err best = reproj_err c \<and>
      solvePnP cv (generate_object_points detector) test (provisional_K frame) (Mat_zeros 5 1) =
        (True, rvec c, tvec c) \<and>
      mat_at (Rodrigues cv (rvec c)) 2 2 = Some r22 \<and> 0 < r22 \<and>
      (let proj_pts = projectPoints cv (generate_object_points detector) (rvec c) (tvec c)
                        (provisional_K frame) (Mat_zeros 5 1)
       in proj_pts \<noteq> [] \<and> length proj_pts \<le> length test \<and>
          reproj_err c =
            (\<Sum>i\<leftarrow>[0..<length proj_pts]. cv_norm (pt_sub (proj_pts ! i) (test ! i)))
              / real (length proj_pts)) \<and>
      reproj_err c \<le> 15"
proof -
  let ?ks = "[0, 1, 2, 3] :: int list"
  obtain vals where run: "fold (\<lambda>a1_index st. do {
             best \<leftarrow> st;
             c \<leftarrow> candidate_of cv frame corners a1_index;
             Some (keep_better a1_index c best)
           }) ?ks (Some (start_pose vals)) = Some best"
    using find_best_pose_Some [OF assms(1)] by blast
  from select_fold_Some [OF run]
  have defined: "\<forall>k\<in>set ?ks. \<exists>c. candidate_of cv frame corners k = Some c"
    by blast
  define cf where "cf k = the (candidate_of cv frame corners k)" for k
  have cf: "\<forall>k\<in>set ?ks. candidate_of cv frame corners k = Some (cf k)"
    using defined unfolding cf_def by auto
  have best: "best = fold (\<lambda>k. keep_better k (cf k)) ?ks (start_pose vals)"
    using run select_fold_defined [OF cf, of "start_pose vals"] by simp
  have some_valid: "\<exists>k\<in>set ?ks. z_ok (cf k)"
  proof (rule ccontr)
    assume "\<not> (\<exists>k\<in>set ?ks. z_ok (cf k))"
    then have "\<forall>k\<in>set ?ks. \<not> z_ok (cf k)" by blast
    then have "best = start_pose vals"
      unfolding best by (rule select_none)
    then show False using assms(2) by (simp add: start_pose_a1)
  qed
  have bound: "\<forall>k\<in>set ?ks. z_ok (cf k) \<longrightarrow> reproj_err (cf k) < 1000000000"
    using cf candidate_bound by blast
  have sorted: "sorted_wrt (<) ?ks" by simp
  note sel = select_best [OF sorted bound some_valid, of vals, folded best, unfolded Let_def]
  let ?c = "cf (best_a1 best)"
  have member: "best_a1 best \<in> set ?ks" using sel by blast
  have cand: "candidate_of cv frame corners (best_a1 best) = Some ?c"
    using cf member by blast
  have valid: "z_ok ?c" using sel by blast
  from evaluate_candidate_valid [OF cand [unfolded candidate_of_def] valid]
  obtain test err r22 where
    t: "reorder_corners detector corners (best_a1 best) = Some test" "test_corners ?c = test"
    and rv: "rvec ?c = fst (snd (solvePnP cv (generate_object_points detector) test
                (provisional_K frame) (Mat_zeros 5 1)))"
    and tv: "tvec ?c = snd (snd (solvePnP cv (generate_object_points detector) test
                (provisional_K frame) (Mat_zeros 5 1)))"
    and ok: "fst (solvePnP cv (generate_object_points detector) test
                (provisional_K frame) (Mat_zeros 5 1))"
    and r22: "mat_at (Rodrigues cv (rvec ?c)) 2 2 = Some r22" "0 < r22"
    and ne: "projectPoints cv (generate_object_points detector) (rvec ?c) (tvec ?c)
                (provisional_K frame) (Mat_zeros 5 1) \<noteq> []"
    and sum: "sum_distances (projectPoints cv (generate_object_points detector) (rvec ?c) (tvec ?c)
                (provisional_K frame) (Mat_zeros 5 1)) test = Some err"
    and mean: "reproj_err ?c = err / real (length (projectPoints cv (generate_object_points detector)
                (rvec ?c) (tvec ?c) (provisional_K frame) (Mat_zeros 5 1)))"
    and le: "reproj_err ?c \<le> 15"
    by blast
  have pnp: "solvePnP cv (generate_object_points detector) test (provisional_K frame) (Mat_zeros 5 1) =
        (True, rvec ?c, tvec ?c)"
    using ok rv tv by (simp add: prod_eq_iff)
  note sd = sum_distances_Some [OF sum]
  have "best_a1 best \<in> {0, 1, 2, 3}" using member by simp
  moreover have "best_corners best = test" "best_rvec best = rvec ?c" "best_tvec best = tvec ?c"
    "best_reproj_err best = reproj_err ?c"
    using sel t(2) by simp_all
  ultimately show ?thesis
    using cand t(1) pnp r22 ne sd mean le
    by (intro exI [of _ ?c] exI [of _ test] exI [of _ r22]) (simp add: Let_def)
qed

theorem selected_pose_passes_gates_witness:
  "find_best_pose (shifted_camera 3) test_grid test_frame test_frame = Some (test_pose 3) \<and>
   best_a1 (test_pose 3) \<noteq> - 1 \<and>
   best_a1 (test_pose 3) \<in> {0, 1, 2, 3} \<and>
   best_reproj_err (test_pose 3) \<le> 15"
proof -
  have found: "find_best_pose (shifted_camera 3) test_grid test_frame test_frame = Some (test_pose 3)"
    using shifted_pose [of 3] by (simp add: test_grid_def test_frame_def test_pose_def)
  have selected: "best_a1 (test_pose 3) \<noteq> - 1"
    by (simp add: test_pose_def)
  note gates = selected_pose_passes_gates [OF found selected]
  have index: "best_a1 (test_pose 3) \<in> {0, 1, 2, 3}"
    using gates by (elim exE conjE)
  have bound: "best_reproj_err (test_pose 3) \<le> 15"
    using gates by (elim exE conjE) (simp only:)
  show ?thesis using found selected index bound by (intro conjI)
qed

subsection \<open>The selection\<close>




subsection \<open>Marker candidates\<close>

lemma sum_list_bounds:
  fixes f :: "'a \<Rightarrow> real"
  assumes "\<forall>x\<in>set xs. 0 \<le> f x \<and> f x \<le> c"
  shows "0 \<le> sum_list (map f xs) \<and> sum_list (map f xs) \<le> real (length xs) * c"
  using assms by (induction xs) (auto simp add: algebra_simps)

lemma pixel_range: "0 \<le> real (unat (w :: 8 word)) \<and> real (unat w) \<le> 255"
proof -
  have "unat w < 2 ^ LENGTH(8)" by (rule unsigned_less)
  then have "unat w \<le> 255" by simp
  then have "real (unat w) \<le> real 255" by (simp only: of_nat_le_iff)
  then show ?thesis by (simp del: of_nat_unat)
qed

lemma roi_mean_range:
  assumes "roi_mean gray pt = Some val"
  shows "0 \<le> val \<and> val \<le> 255"
proof -
  define x0 where "x0 = cvRound (pt_x pt - 2)"
  define y0 where "y0 = cvRound (pt_y pt - 2)"
  define total where "total = (\<Sum>j\<leftarrow>[0..4]. \<Sum>i\<leftarrow>[0..4]. real (unat (img_at gray (y0 + j) (x0 + i))))"
  have val: "val = total / 25"
    using assms unfolding roi_mean_def Let_def total_def x0_def y0_def
    by (simp split: if_splits)
  have row: "0 \<le> (\<Sum>i\<leftarrow>[0..4]. real (unat (img_at gray (y0 + j) (x0 + i)))) \<and>
      (\<Sum>i\<leftarrow>[0..4]. real (unat (img_at gray (y0 + j) (x0 + i)))) \<le> real (length [0..4::int]) * 255" for j
    using pixel_range by (intro sum_list_bounds) blast
  have "0 \<le> total \<and> total \<le> real (length [0..4::int]) * (5 * 255)"
    unfolding total_def using row by (intro sum_list_bounds) simp
  then show ?thesis by (simp add: val)
qed

lemma measure_outer_inside:
  assumes "\<not> outside_margin gray (outer ! i)"
  shows "measure_outer gray outer i (Some (vals, m)) =
     Some (vals[i := the (roi_mean gray (outer ! i))],
           if the (roi_mean gray (outer ! i)) < m then the (roi_mean gray (outer ! i)) else m)"
  using roi_mean_defined [OF assms] assms
  by (auto simp add: measure_outer_def Let_def)

lemma measure_outer_outside:
  assumes "outside_margin gray (outer ! i)"
  shows "measure_outer gray outer i (Some (vals, m)) = Some (vals, m)"
  using assms by (simp add: measure_outer_def Let_def)

lemma fold_filter_push:
  "fold (\<lambda>i candidates. if P i then candidates @ [int i] else candidates) is acc =
   acc @ map int (filter P is)"
  by (induction "is" arbitrary: acc) simp_all

lemma measured_vals:
  "i < length (fst st) \<Longrightarrow>
   fst (fold (measured inside br) is st) ! i =
     (if i \<in> set is \<and> inside i then br i else fst st ! i)"
proof (induction "is" arbitrary: st)
  case Nil
  show ?case by simp
next
  case (Cons x xs)
  have len: "i < length (fst (measured inside br x st))"
    using Cons.prems by (simp add: measured_def)
  have here: "fst (measured inside br x st) ! i = (if i = x \<and> inside i then br i else fst st ! i)"
    using Cons.prems by (auto simp add: measured_def nth_list_update)
  show ?case
    using Cons.IH [OF len] here by auto
qed

lemma measured_min_le: "snd (fold (measured inside br) is st) \<le> snd st"
proof (induction "is" arbitrary: st)
  case Nil
  show ?case by simp
next
  case (Cons x xs)
  have "snd (measured inside br x st) \<le> snd st"
    by (simp add: measured_def)
  with Cons.IH [of "measured inside br x st"] show ?case by simp
qed

lemma measured_min_low:
  "i \<in> set is \<Longrightarrow> inside i \<Longrightarrow> snd (fold (measured inside br) is st) \<le> br i"
proof (induction "is" arbitrary: st)
  case Nil
  then show ?case by simp
next
  case (Cons x xs)
  show ?case
  proof (cases "i = x")
    case True
    have "snd (measured inside br x st) \<le> br x"
      using Cons.prems(2) True by (simp add: measured_def)
    with measured_min_le [of inside br xs "measured inside br x st"] show ?thesis
      using True by simp
  next
    case False
    then have "i \<in> set xs" using Cons.prems(1) by simp
    from Cons.IH [OF this Cons.prems(2)] show ?thesis by simp
  qed
qed

lemma measured_min_hit:
  "snd (fold (measured inside br) is st) = snd st \<or>
   (\<exists>i\<in>set is. inside i \<and> snd (fold (measured inside br) is st) = br i)"
proof (induction "is" arbitrary: st)
  case Nil
  show ?case by simp
next
  case (Cons x xs)
  have here: "snd (measured inside br x st) = snd st \<or> (inside x \<and> snd (measured inside br x st) = br x)"
    by (simp add: measured_def)
  from Cons.IH [of "measured inside br x st"] here show ?case by auto
qed

text \<open>
  When at least one of the four outer positions is inside the margin,
  \<open>find_a1_candidates\<close> returns, in increasing order, exactly the indices of the positions
  inside the margin whose brightness is less than 10 above the minimum \<open>m\<close> over the
  positions inside: a skipped position keeps the value \<open>1e6\<close>, which is not below
  \<open>m + 10\<close> since a mean of 8-bit pixels is at most 255.
\<close>

lemma find_a1_candidates_some_inside:
  assumes outer: "outer_corners_of (corners_y b) (corners_x b) corners = Some outer"
    and some: "\<exists>i<4. \<not> outside_margin gray (outer ! i)"
  shows "\<exists>m. (\<exists>i<4. \<not> outside_margin gray (outer ! i) \<and> the (roi_mean gray (outer ! i)) = m) \<and>
           (\<forall>i<4. \<not> outside_margin gray (outer ! i) \<longrightarrow> m \<le> the (roi_mean gray (outer ! i))) \<and>
           find_a1_candidates b gray corners =
             Some (map int (filter (\<lambda>i. \<not> outside_margin gray (outer ! i) \<and>
                                      the (roi_mean gray (outer ! i)) < m + 10) [0..<4]))"
proof -
  define inside where "inside i \<longleftrightarrow> \<not> outside_margin gray (outer ! i)" for i
  define br where "br i = the (roi_mean gray (outer ! i))" for i
  have range: "0 \<le> br i \<and> br i \<le> 255" if ins: "inside i" for i
  proof -
    obtain v where "roi_mean gray (outer ! i) = Some v"
      using roi_mean_defined [of gray "outer ! i"] ins unfolding inside_def by blast
    then show ?thesis using roi_mean_range [of gray "outer ! i" v] by (simp add: br_def)
  qed
  have step: "measure_outer gray outer i (Some st) = Some (measured inside br i st)" for i st
    using measure_outer_inside [of gray outer i "fst st" "snd st"]
      measure_outer_outside [of gray outer i "fst st" "snd st"]
    by (cases "inside i") (simp_all add: measured_def inside_def br_def)
  have run: "fold (measure_outer gray outer) is (Some st) = Some (fold (measured inside br) is st)"
    for "is" st
    by (induction "is" arbitrary: st) (simp_all add: step)
  define m where "m = snd (fold (measured inside br) [0..<4] (replicate 4 1000000, 1000000))"
  define vals where "vals = fst (fold (measured inside br) [0..<4] (replicate 4 1000000, 1000000))"
  have vals: "vals ! i = (if inside i then br i else 1000000)" if "i < 4" for i
    unfolding vals_def using that measured_vals [of i "(replicate 4 1000000, 1000000)" inside br "[0..<4]"]
    by simp
  have m_low: "\<forall>i<4. inside i \<longrightarrow> m \<le> br i"
    unfolding m_def using measured_min_low [of _ "[0..<4]" inside br] by simp
  obtain k where k: "k < 4" "inside k"
    using some unfolding inside_def by blast
  have "m \<le> br k" using m_low k by blast
  then have m_small: "m \<le> 255" using range [OF k(2)] by simp
  have m_hit: "\<exists>i<4. inside i \<and> br i = m"
    using measured_min_hit [of inside br "[0..<4]" "(replicate 4 1000000, 1000000)"] m_small
    unfolding m_def by auto
  have "filter (\<lambda>i. vals ! i < m + 10) [0..<4] = filter (\<lambda>i. inside i \<and> br i < m + 10) [0..<4]"
    by (rule filter_cong [OF refl]) (use vals m_small in auto)
  then have cands: "fold (\<lambda>i candidates. if vals ! i < m + 10 then candidates @ [int i] else candidates)
        [0..<4] [] = map int (filter (\<lambda>i. inside i \<and> br i < m + 10) [0..<4])"
    by (simp only: fold_filter_push append_Nil)
  have run4: "fold (measure_outer gray outer) [0..<4] (Some (replicate 4 1000000, 1000000)) =
      Some (vals, m)"
    by (simp only: run vals_def m_def prod.collapse)
  have "find_a1_candidates b gray corners =
      Some (map int (filter (\<lambda>i. inside i \<and> br i < m + 10) [0..<4]))"
    unfolding find_a1_candidates_def Let_def
    by (simp only: outer run4 bind.bind_lunit prod.case cands)
  then show ?thesis
    using m_low m_hit unfolding inside_def br_def by blast
qed

text \<open>
  C4 at a detection whose four outer squares all lie outside the image: each position is
  skipped, \<open>vals\<close> and \<open>min_val\<close> keep their initial value \<open>1e6\<close>, the test
  \<open>vals[i] < min_val + 10\<close> holds for every index, and the function returns all four
  indices instead of none.
\<close>

theorem find_a1_candidates_all_outside:
  "outer_corners_of (corners_y detector) (corners_x detector) wide_grid =
     Some [Point2f (- 30) (- (45 / 2)), Point2f 670 (- (45 / 2)),
           Point2f (- 30) (1005 / 2), Point2f 670 (1005 / 2)] \<and>
   map (outside_margin (flat_image 640 480 200))
     [Point2f (- 30) (- (45 / 2)), Point2f 670 (- (45 / 2)),
      Point2f (- 30) (1005 / 2), Point2f 670 (1005 / 2)] = [True, True, True, True] \<and>
   find_a1_candidates detector (flat_image 640 480 200) wide_grid = Some [0, 1, 2, 3]"
  by code_simp

end
